theory Spec2Isabelle
  imports Main "HOL-Library.DAList"
begin

section \<open>Data model\<close>

text \<open>
  The workflow engine of yoke-cli: a YAML workflow is a list of nodes with dependencies;
  a router computes the ready frontier on every tick, node handlers execute one node and
  report a status, and a run can be resumed from a checkpoint.

  A JavaScript object used as a dictionary (\<open>Record<string, T>\<close>) is an association list
  with unique keys, type \<open>(string, T) alist\<close>: \<open>Object.entries\<close> is \<open>impl_of\<close>,
  property access is \<open>DAList.lookup\<close> and an assignment is \<open>DAList.update\<close>.
  A value of type \<open>unknown\<close> is a JSON value.
\<close>

datatype NodeStatus = PENDING | RUNNING | CACHED | SUCCESS | FAILED | SKIPPED

datatype jvalue =
    JNull
  | JBool bool
  | JNum int
  | JStr string
  | JArr "jvalue list"
  | JObj "(string \<times> jvalue) list"

text \<open>\<open>interface NodeOutput\<close> (graph/state.ts); an optional field is an option.\<close>

record NodeOutput =
  result :: jvalue
  artifacts :: "string list"
  logs :: "string list option"
  hash :: "string option"
  cached :: "bool option"

text \<open>
  The node types of schema/types.ts. \<open>produces.json.resultFromFile\<close> is flattened into
  one optional field; numbers that count milliseconds are integers.
\<close>

record Produces =
  files :: "string list option"
  resultFromFile :: "string option"

record BaseNode =
  nodeId :: string
  nodeName :: "string option"
  deps :: "string list option"
  deterministic :: "bool option"
  timeout :: "int option"
  retries :: "int option"

record ExecNode = BaseNode +
  command :: string
  args :: "string list option"
  cwd :: "string option"
  env :: "(string \<times> string) list option"
  produces :: "Produces option"

record TaskNode = BaseNode +
  agent :: string
  prompt :: string
  inputs :: "(string \<times> jvalue) list option"
  taskArtifacts :: "string list option"
  taskEnv :: "(string \<times> string) list option"
  taskCwd :: "string option"

text \<open>
  The body of a map or reduce node is typed \<open>TaskNode | ExecNode\<close>; the code tests its
  \<open>kind\<close> at run time and rejects any other value, which is \<open>OtherBody\<close> here.
\<close>

datatype Body = ExecBody ExecNode | TaskBody TaskNode | OtherBody string

record MapNode = BaseNode +
  over :: jvalue
  mapBody :: Body

record ReduceNode = BaseNode +
  reduceBody :: Body

datatype NodeDefinition =
    ExecDef ExecNode
  | TaskDef TaskNode
  | MapDef MapNode
  | ReduceDef ReduceNode

fun defId :: "NodeDefinition \<Rightarrow> string" where
  "defId (ExecDef n) = nodeId n"
| "defId (TaskDef n) = nodeId n"
| "defId (MapDef n) = nodeId n"
| "defId (ReduceDef n) = nodeId n"

fun defDeps :: "NodeDefinition \<Rightarrow> string list option" where
  "defDeps (ExecDef n) = deps n"
| "defDeps (TaskDef n) = deps n"
| "defDeps (MapDef n) = deps n"
| "defDeps (ReduceDef n) = deps n"

record WorkflowDefinition =
  version :: int
  wfName :: string
  concurrency :: "int option"
  wfVars :: "(string, jvalue) alist option"
  nodes :: "NodeDefinition list"

text \<open>\<open>RunState\<close> (graph/state.ts): the state that flows through the graph.\<close>

record RunState =
  vars :: "(string, jvalue) alist"
  outputs :: "(string, NodeOutput) alist"
  statuses :: "(string, NodeStatus) alist"
  nextIds :: "string list"
  failed :: "(string \<times> string) option"

text \<open>
  A node of the graph returns a \<open>Partial<RunState>\<close>: only the fields it names are
  handed to their reducers.
\<close>

record RunStateUpdate =
  updVars :: "(string, jvalue) alist option"
  updOutputs :: "(string, NodeOutput) alist option"
  updStatuses :: "(string, NodeStatus) alist option"
  updNext :: "string list option"
  updFailed :: "(string \<times> string) option option"

definition noUpdate :: RunStateUpdate where
  "noUpdate = \<lparr>updVars = None, updOutputs = None, updStatuses = None, updNext = None,
     updFailed = None\<rparr>"

text \<open>The reducer \<open>(left, right) => ({ ...left, ...right })\<close> of RunStateAnnotation.\<close>

definition mergeRecord :: "('k, 'v) alist \<Rightarrow> ('k, 'v) alist \<Rightarrow> ('k, 'v) alist" where
  "mergeRecord left right = fold (\<lambda>(k, v). DAList.update k v) (DAList.impl_of right) left"

text \<open>
  The reducers of RunStateAnnotation: vars, outputs and statuses merge; next and failed
  are replaced by the new value.
\<close>

definition applyUpdate :: "RunState \<Rightarrow> RunStateUpdate \<Rightarrow> RunState" where
  "applyUpdate state u =
     \<lparr>vars = (case updVars u of None \<Rightarrow> vars state | Some r \<Rightarrow> mergeRecord (vars state) r),
      outputs = (case updOutputs u of None \<Rightarrow> outputs state
                 | Some r \<Rightarrow> mergeRecord (outputs state) r),
      statuses = (case updStatuses u of None \<Rightarrow> statuses state
                  | Some r \<Rightarrow> mergeRecord (statuses state) r),
      nextIds = (case updNext u of None \<Rightarrow> nextIds state | Some r \<Rightarrow> r),
      failed = (case updFailed u of None \<Rightarrow> failed state | Some r \<Rightarrow> r)\<rparr>"

definition createInitialState :: "(string, jvalue) alist \<Rightarrow> RunState" where
  "createInitialState vs =
     \<lparr>vars = vs, outputs = DAList.empty, statuses = DAList.empty, nextIds = [], failed = None\<rparr>"

section \<open>Effects\<close>

text \<open>
  Everything a node does to the outside is an event appended to the world's log, so that
  "the command was not run" is a statement about the log. The cache directory is a map
  from key to stored output. Calls of the run store made by the engine are events; the
  run store itself is modelled in its own section.
\<close>

datatype effect =
    CacheGet string
  | CachePut string NodeOutput
  | Spawn string "string list"
  | Kill string
  | AgentRun string
  | FsAccess string
  | FsReadFile string
  | SetNodeStatus string NodeStatus
  | SetNodeOutput string NodeOutput
  | SetNodeError string string
  | Complete string

record world =
  cache :: "string \<Rightarrow> NodeOutput option"
  events :: "effect list"

definition emit :: "effect \<Rightarrow> world \<Rightarrow> world" where
  "emit e w = w\<lparr>events := events w @ [e]\<rparr>"

text \<open>The events that touch the cache, and those that run a command or an agent.\<close>

definition isCacheEvent :: "effect \<Rightarrow> bool" where
  "isCacheEvent e = (case e of CacheGet _ \<Rightarrow> True | CachePut _ _ \<Rightarrow> True | _ \<Rightarrow> False)"

definition isRunEvent :: "effect \<Rightarrow> bool" where
  "isRunEvent e = (case e of Spawn _ _ \<Rightarrow> True | AgentRun _ \<Rightarrow> True | _ \<Rightarrow> False)"

definition isAuxEvent :: "effect \<Rightarrow> bool" where
  "isAuxEvent e = (case e of Kill _ \<Rightarrow> True | FsAccess _ \<Rightarrow> True | FsReadFile _ \<Rightarrow> True
                   | _ \<Rightarrow> False)"

definition isStoreEvent :: "effect \<Rightarrow> bool" where
  "isStoreEvent e = (case e of SetNodeStatus _ _ \<Rightarrow> True | SetNodeOutput _ _ \<Rightarrow> True
                     | SetNodeError _ _ \<Rightarrow> True | Complete _ \<Rightarrow> True | _ \<Rightarrow> False)"

text \<open>The run-store events about one node.\<close>

definition touches :: "string \<Rightarrow> effect \<Rightarrow> bool" where
  "touches k e = (case e of SetNodeStatus i _ \<Rightarrow> i = k | SetNodeOutput i _ \<Rightarrow> i = k
                  | SetNodeError i _ \<Rightarrow> i = k | _ \<Rightarrow> False)"

text \<open>The world \<open>w'\<close> continues \<open>w\<close> by events that all satisfy \<open>P\<close>.\<close>

definition extends :: "world \<Rightarrow> world \<Rightarrow> (effect \<Rightarrow> bool) \<Rightarrow> bool" where
  "extends w w' P = (\<exists>evs. events w' = events w @ evs \<and> list_all P evs)"

text \<open>\<open>CacheStore.get\<close> and \<open>CacheStore.put\<close> (store/cache-store.ts).\<close>

definition cacheGet :: "string \<Rightarrow> world \<Rightarrow> NodeOutput option \<times> world" where
  "cacheGet key w = (cache w key, emit (CacheGet key) w)"

definition cachePut :: "string \<Rightarrow> NodeOutput \<Rightarrow> world \<Rightarrow> world" where
  "cachePut key val w = emit (CachePut key val) (w\<lparr>cache := (cache w)(key \<mapsto> val)\<rparr>)"

section \<open>The router (graph/buildGraph.ts)\<close>

text \<open>The first loop of the router: the status entries sorted into three sets.\<close>

fun categorize ::
  "(string \<times> NodeStatus) list \<Rightarrow> string set \<times> string set \<times> string set \<Rightarrow>
   string set \<times> string set \<times> string set" where
  "categorize [] acc = acc"
| "categorize ((nid, status) # es) (completed, failedS, skipped) =
     categorize es
       (if status = SUCCESS \<or> status = CACHED then (insert nid completed, failedS, skipped)
        else if status = FAILED then (completed, insert nid failedS, skipped)
        else if status = SKIPPED then (completed, failedS, insert nid skipped)
        else (completed, failedS, skipped))"

text \<open>
  The second loop, over \<open>workflow.nodes\<close>, with the accumulators \<open>ready\<close> and
  \<open>statusUpdates\<close> and the world (the run store is told of every skip).
\<close>

fun routerLoop ::
  "string set \<times> string set \<times> string set \<Rightarrow> RunState \<Rightarrow> NodeDefinition list \<Rightarrow>
   string list \<times> (string, NodeStatus) alist \<times> world \<Rightarrow>
   string list \<times> (string, NodeStatus) alist \<times> world" where
  "routerLoop cat state [] acc = acc"
| "routerLoop (completed, failedS, skipped) state (node # rest) (ready, statusUpdates, w) =
     (let nid = defId node in
      if nid \<in> completed \<or> nid \<in> failedS \<or> nid \<in> skipped
      then routerLoop (completed, failedS, skipped) state rest (ready, statusUpdates, w)
      else if DAList.lookup (statuses state) nid = Some RUNNING
      then routerLoop (completed, failedS, skipped) state rest (ready, statusUpdates, w)
      else
        let ds = (case defDeps node of None \<Rightarrow> [] | Some d \<Rightarrow> d);
            allDepsComplete = list_all (\<lambda>dep. dep \<in> completed) ds;
            anyDepFailed = list_ex (\<lambda>dep. dep \<in> failedS \<or> dep \<in> skipped) ds
        in if anyDepFailed
           then routerLoop (completed, failedS, skipped) state rest
                  (ready, DAList.update nid SKIPPED statusUpdates,
                   emit (SetNodeStatus nid SKIPPED) w)
           else if allDepsComplete
           then routerLoop (completed, failedS, skipped) state rest
                  (ready @ [nid], statusUpdates, w)
           else routerLoop (completed, failedS, skipped) state rest
                  (ready, statusUpdates, w))"

text \<open>
  The two conditions under which the loop body acts on a node: the node is neither in
  one of the three sets nor RUNNING, and then either a dependency failed or was skipped,
  or none did and all dependencies completed.
\<close>

definition skipBranch ::
  "string set \<times> string set \<times> string set \<Rightarrow> RunState \<Rightarrow> NodeDefinition \<Rightarrow> bool" where
  "skipBranch cat state node =
     (case cat of (completed, failedS, skipped) \<Rightarrow>
        defId node \<notin> completed \<and> defId node \<notin> failedS \<and> defId node \<notin> skipped \<and>
        DAList.lookup (statuses state) (defId node) \<noteq> Some RUNNING \<and>
        list_ex (\<lambda>dep. dep \<in> failedS \<or> dep \<in> skipped)
          (case defDeps node of None \<Rightarrow> [] | Some d \<Rightarrow> d))"

definition readyBranch ::
  "string set \<times> string set \<times> string set \<Rightarrow> RunState \<Rightarrow> NodeDefinition \<Rightarrow> bool" where
  "readyBranch cat state node =
     (case cat of (completed, failedS, skipped) \<Rightarrow>
        defId node \<notin> completed \<and> defId node \<notin> failedS \<and> defId node \<notin> skipped \<and>
        DAList.lookup (statuses state) (defId node) \<noteq> Some RUNNING \<and>
        \<not> list_ex (\<lambda>dep. dep \<in> failedS \<or> dep \<in> skipped)
            (case defDeps node of None \<Rightarrow> [] | Some d \<Rightarrow> d) \<and>
        list_all (\<lambda>dep. dep \<in> completed) (case defDeps node of None \<Rightarrow> [] | Some d \<Rightarrow> d))"

definition routerScan ::
  "WorkflowDefinition \<Rightarrow> RunState \<Rightarrow> world \<Rightarrow>
   string list \<times> (string, NodeStatus) alist \<times> world" where
  "routerScan workflow state w =
     routerLoop (categorize (DAList.impl_of (statuses state)) ({}, {}, {})) state
       (nodes workflow) ([], DAList.empty, w)"

text \<open>The router node returns \<open>{ next: ready, statuses: statusUpdates }\<close>.\<close>

definition router :: "WorkflowDefinition \<Rightarrow> RunState \<Rightarrow> world \<Rightarrow> RunStateUpdate \<times> world" where
  "router workflow state w =
     (case routerScan workflow state w of
        (ready, statusUpdates, w') \<Rightarrow>
          (noUpdate\<lparr>updNext := Some ready, updStatuses := Some statusUpdates\<rparr>, w'))"

text \<open>The frontier and the statuses after one tick of the router.\<close>

definition tick :: "WorkflowDefinition \<Rightarrow> RunState \<Rightarrow> world \<Rightarrow> RunState" where
  "tick workflow state w = applyUpdate state (fst (router workflow state w))"


section \<open>Errors\<close>

text \<open>
  Every \<open>throw\<close> of the engine is a constructor; \<open>message\<close> is the text of the
  JavaScript \<open>Error\<close>, which is what the failure record and the run store keep.
\<close>

datatype error =
    ExecTimeout int
  | ExecFailed int string "string list" string
  | SpawnError string
  | FileNotProduced string
  | ResultFileError string
  | AgentNotFound string
  | AgentFailed string
  | UnsupportedKind string
  | UnsupportedMapBody string
  | UnsupportedReduceBody string
  | MapOverNotArray string
  | TemplateError string
  | Deadlock "string list"
  | NodeNotFound string
  | CannotResume
  | InvokeError string
  | WorkflowFailedAt string string nat
  | WorkflowFailedNodes "string list" nat

fun showNat :: "nat \<Rightarrow> string" where
  "showNat n = (if n < 10 then [''0123456789'' ! n]
                else showNat (n div 10) @ [''0123456789'' ! (n mod 10)])"

declare showNat.simps [simp del]

definition showInt :: "int \<Rightarrow> string" where
  "showInt i = (if i < 0 then ''-'' @ showNat (nat (- i)) else showNat (nat i))"

text \<open>\<open>Array.prototype.join\<close>.\<close>

fun joinWith :: "string \<Rightarrow> string list \<Rightarrow> string" where
  "joinWith sep [] = []"
| "joinWith sep [x] = x"
| "joinWith sep (x # y # r) = x @ sep @ joinWith sep (y # r)"

definition kindName :: "NodeDefinition \<Rightarrow> string" where
  "kindName n = (case n of ExecDef _ \<Rightarrow> ''exec'' | TaskDef _ \<Rightarrow> ''task''
                 | MapDef _ \<Rightarrow> ''map'' | ReduceDef _ \<Rightarrow> ''reduce'')"

definition skippedSuffix :: "nat \<Rightarrow> string" where
  "skippedSuffix k = (if 0 < k then '' ('' @ showNat k @ '' skipped)'' else [])"

fun message :: "error \<Rightarrow> string" where
  "message (ExecTimeout t) = ''exec timeout after '' @ showInt t @ ''ms''"
| "message (ExecFailed code cmd as stderrStr) =
     ''exec failed ('' @ showInt code @ ''): '' @ cmd @ '' '' @ joinWith '' '' as
       @ [CHR 0x0A] @ stderrStr"
| "message (SpawnError m) = m"
| "message (FileNotProduced f) = ''Expected file '' @ f @ '' was not produced''"
| "message (ResultFileError m) = m"
| "message (AgentNotFound a) = ''Agent '' @ a @ '' not found''"
| "message (AgentFailed m) = m"
| "message (UnsupportedKind k) = ''Unsupported node kind: '' @ k"
| "message (UnsupportedMapBody k) = ''Unsupported map body kind: '' @ k"
| "message (UnsupportedReduceBody k) = ''Unsupported reduce body kind: '' @ k"
| "message (MapOverNotArray t) =
     ''Map '' @ [CHR 0x27] @ ''over'' @ [CHR 0x27]
       @ '' expression did not resolve to an array: '' @ t"
| "message (TemplateError m) = m"
| "message (Deadlock pendingNodes) =
     ''Workflow deadlock detected. Nodes still pending but none are ready: ''
       @ joinWith '', '' pendingNodes"
| "message (NodeNotFound n) = ''Node '' @ n @ '' not found''"
| "message CannotResume = ''Cannot resume without a checkpointer''"
| "message (InvokeError m) = m"
| "message (WorkflowFailedAt failedNode err k) =
     ''Workflow failed: '' @ failedNode @ '' failed: '' @ err @ skippedSuffix k"
| "message (WorkflowFailedNodes failedNodes k) =
     ''Workflow failed: '' @ joinWith '', '' failedNodes @ '' failed'' @ skippedSuffix k"

section \<open>The platform\<close>

text \<open>
  What the engine calls but does not define is a field of \<open>platform\<close>: the hash
  function and the JSON printer behind \<open>hashInputs\<close>, the working directory, the file
  system, the Handlebars template engine, the agents, and the child process. A call whose
  answer may depend on what happened before takes the event log as an argument.

  A child process is what the \<open>Promise\<close> of \<open>runExec\<close> observes of it: an \<open>error\<close>
  event (the command could not be spawned), or a \<open>close\<close> event after \<open>closeAfter\<close>
  milliseconds with an exit code (\<open>null\<close> when a signal ended the process) and what was
  written to stdout and stderr until then. Every child closes eventually.
\<close>

record ProcResult =
  spawnError :: "string option"
  closeAfter :: nat
  exitCode :: "int option"
  stdoutData :: string
  stderrData :: string

datatype payload =
    ExecPayload string "string list" string "(string \<times> string) list" "Produces option"
  | TaskPayload string string "(string \<times> jvalue) list" "(string \<times> string) list"

record AgentRequest =
  reqPrompt :: string
  reqInputs :: "(string \<times> jvalue) list"
  reqEnv :: "(string \<times> string) list"
  reqCwd :: string
  reqTimeoutMs :: int

record AgentResult =
  agResult :: jvalue
  createdArtifacts :: "string list option"
  agLogs :: "string list option"

record Agent =
  agentName :: string
  agentRun :: "effect list \<Rightarrow> AgentRequest \<Rightarrow> string + AgentResult"

record platform =
  sha256hex :: "string \<Rightarrow> string"
  jsonStringify :: "payload \<Rightarrow> string"
  processCwd :: string
  pathResolve :: "string \<Rightarrow> string"
  spawnProc ::
    "effect list \<Rightarrow> string \<Rightarrow> string list \<Rightarrow> string \<Rightarrow> (string \<times> string) list \<Rightarrow> ProcResult"
  fsAccess :: "effect list \<Rightarrow> string \<Rightarrow> bool"
  readJsonFile :: "effect list \<Rightarrow> string \<Rightarrow> string + jvalue"
  agentRegistry :: "string \<Rightarrow> Agent option"
  renderNode ::
    "(string, jvalue) alist \<Rightarrow> (string, NodeOutput) alist \<Rightarrow> NodeDefinition \<Rightarrow>
     string + NodeDefinition"
  renderString ::
    "(string, jvalue) alist \<Rightarrow> (string, NodeOutput) alist \<Rightarrow> string \<Rightarrow> string + string"
  jsonParse :: "string \<Rightarrow> jvalue option"
  renderOver ::
    "(string, jvalue) alist \<Rightarrow> (string, NodeOutput) alist \<Rightarrow> jvalue \<Rightarrow> string + jvalue"
  renderBody ::
    "(string, jvalue) alist \<Rightarrow> (string, NodeOutput) alist \<Rightarrow> jvalue option \<Rightarrow> Body \<Rightarrow>
     string + Body"
  completionOrder :: "effect list \<Rightarrow> nat list"
  invokeWithoutInput :: "string + RunState"

text \<open>\<open>hashInputs\<close> (util/hash.ts): the SHA-256 of the payload printed as JSON.\<close>

definition hashInputs :: "platform \<Rightarrow> payload \<Rightarrow> string" where
  "hashInputs x p = sha256hex x (jsonStringify x p)"

section \<open>Command nodes (steps/exec.ts)\<close>

text \<open>\<open>String.prototype.trim\<close> on the ASCII white space.\<close>

definition isSpace :: "char \<Rightarrow> bool" where
  "isSpace c = (c \<in> set [CHR 0x09, CHR 0x0A, CHR 0x0B, CHR 0x0C, CHR 0x0D, CHR 0x20])"

definition trim :: "string \<Rightarrow> string" where
  "trim s = rev (dropWhile isSpace (rev (dropWhile isSpace s)))"

text \<open>
  The promise that waits for the child: a timer is armed only when
  \<open>spec.timeout && spec.timeout > 0\<close>; whichever of timer and \<open>close\<close> comes first
  settles the promise (a timer due at the same millisecond as the \<open>close\<close> runs first),
  and \<open>code ?? -1\<close> stands for a missing exit code.
\<close>

datatype exitWait = Closed int | TimedOut int | Errored string

definition awaitExit :: "int option \<Rightarrow> ProcResult \<Rightarrow> exitWait" where
  "awaitExit tmo p =
     (case spawnError p of
        Some e \<Rightarrow> Errored e
      | None \<Rightarrow>
          (case tmo of
             Some t \<Rightarrow>
               if 0 < t \<and> t \<le> int (closeAfter p) then TimedOut t
               else Closed (case exitCode p of None \<Rightarrow> - 1 | Some c \<Rightarrow> c)
           | None \<Rightarrow> Closed (case exitCode p of None \<Rightarrow> - 1 | Some c \<Rightarrow> c)))"

text \<open>The loop over \<open>spec.produces.files\<close>: every declared file must exist.\<close>

fun verifyFiles ::
  "platform \<Rightarrow> string list \<Rightarrow> string list \<Rightarrow> world \<Rightarrow> (error + string list) \<times> world" where
  "verifyFiles x [] arts w = (Inr arts, w)"
| "verifyFiles x (f # fs) arts w =
     (let p = pathResolve x f; w1 = emit (FsAccess p) w in
      if fsAccess x (events w) p then verifyFiles x fs (arts @ [p]) w1
      else (Inl (FileNotProduced f), w1))"

definition execKey :: "platform \<Rightarrow> ExecNode \<Rightarrow> string" where
  "execKey x spec =
     hashInputs x
       (ExecPayload (command spec)
          (case args spec of None \<Rightarrow> [] | Some a \<Rightarrow> a)
          (case cwd spec of None \<Rightarrow> processCwd x
           | Some c \<Rightarrow> if c = [] then processCwd x else c)
          (case env spec of None \<Rightarrow> [] | Some e \<Rightarrow> e)
          (produces spec))"

text \<open>
  The result of a command: \<open>{ stdout, stderr, exitCode }\<close>, or the JSON read from
  \<open>produces.json.resultFromFile\<close> when that is set.
\<close>

definition readResult ::
  "platform \<Rightarrow> ExecNode \<Rightarrow> jvalue \<Rightarrow> world \<Rightarrow> (error + jvalue) \<times> world" where
  "readResult x spec dflt w =
     (case (case produces spec of None \<Rightarrow> None | Some pr \<Rightarrow> resultFromFile pr) of
        None \<Rightarrow> (Inr dflt, w)
      | Some rf \<Rightarrow>
          if rf = [] then (Inr dflt, w)
          else (case readJsonFile x (events w) (pathResolve x rf) of
                  Inl m \<Rightarrow> (Inl (ResultFileError m), emit (FsReadFile (pathResolve x rf)) w)
                | Inr v \<Rightarrow> (Inr v, emit (FsReadFile (pathResolve x rf)) w)))"

text \<open>
  The destructuring \<open>const { command, args = [], cwd = process.cwd(), env = {} } = spec\<close>
  and the child that \<open>spawn\<close> starts from it.
\<close>

definition argsOf :: "ExecNode \<Rightarrow> string list" where
  "argsOf spec = (case args spec of None \<Rightarrow> [] | Some a \<Rightarrow> a)"

definition childOf :: "platform \<Rightarrow> ExecNode \<Rightarrow> world \<Rightarrow> ProcResult" where
  "childOf x spec w =
     spawnProc x (events w) (command spec) (argsOf spec)
       (case cwd spec of None \<Rightarrow> processCwd x | Some c \<Rightarrow> c)
       (case env spec of None \<Rightarrow> [] | Some e \<Rightarrow> e)"

text \<open>\<open>runExec\<close> after the cache lookup: spawn, wait, check, build the output.\<close>

definition execProcess ::
  "platform \<Rightarrow> ExecNode \<Rightarrow> string \<Rightarrow> world \<Rightarrow> (error + NodeOutput) \<times> world" where
  "execProcess x spec key w =
     (let p = childOf x spec w;
          w1 = emit (Spawn (command spec) (argsOf spec)) w
      in case awaitExit (timeout spec) p of
           TimedOut t \<Rightarrow> (Inl (ExecTimeout t), emit (Kill (command spec)) w1)
         | Errored e \<Rightarrow> (Inl (SpawnError e), w1)
         | Closed code \<Rightarrow>
             let stdoutStr = trim (stdoutData p); stderrStr = trim (stderrData p) in
             if code \<noteq> 0
             then (Inl (ExecFailed code (command spec) (argsOf spec) stderrStr), w1)
             else
               (case verifyFiles x
                       (case produces spec of None \<Rightarrow> []
                        | Some pr \<Rightarrow> (case files pr of None \<Rightarrow> [] | Some fs \<Rightarrow> fs)) [] w1 of
                  (Inl e, w2) \<Rightarrow> (Inl e, w2)
                | (Inr arts, w2) \<Rightarrow>
                    (case readResult x spec
                            (JObj [(''stdout'', JStr stdoutStr), (''stderr'', JStr stderrStr),
                                   (''exitCode'', JNum code)]) w2 of
                       (Inl e, w3) \<Rightarrow> (Inl e, w3)
                     | (Inr res, w3) \<Rightarrow>
                         (let output = \<lparr>result = res, artifacts = arts, logs = None,
                                hash = Some key, cached = Some False\<rparr>
                          in (Inr output,
                              if deterministic spec \<noteq> Some False
                              then cachePut key output w3 else w3)))))"

definition runExec :: "platform \<Rightarrow> ExecNode \<Rightarrow> world \<Rightarrow> (error + NodeOutput) \<times> world" where
  "runExec x spec w =
     (let key = execKey x spec in
      case (if deterministic spec \<noteq> Some False then cacheGet key w else (None, w)) of
        (Some hit, w1) \<Rightarrow> (Inr (hit\<lparr>hash := Some key, cached := Some True\<rparr>), w1)
      | (None, w1) \<Rightarrow> execProcess x spec key w1)"

section \<open>Delegated-task nodes (steps/task.ts)\<close>

definition taskKey :: "platform \<Rightarrow> Agent \<Rightarrow> TaskNode \<Rightarrow> string" where
  "taskKey x ag spec =
     hashInputs x
       (TaskPayload (agentName ag) (prompt spec)
          (case inputs spec of None \<Rightarrow> [] | Some i \<Rightarrow> i)
          (case taskEnv spec of None \<Rightarrow> [] | Some e \<Rightarrow> e))"

definition taskRequest :: "platform \<Rightarrow> TaskNode \<Rightarrow> AgentRequest" where
  "taskRequest x spec =
     \<lparr>reqPrompt = prompt spec,
      reqInputs = (case inputs spec of None \<Rightarrow> [] | Some i \<Rightarrow> i),
      reqEnv = (case taskEnv spec of None \<Rightarrow> [] | Some e \<Rightarrow> e),
      reqCwd = (case taskCwd spec of None \<Rightarrow> processCwd x
                | Some c \<Rightarrow> if c = [] then processCwd x else c),
      reqTimeoutMs = (case timeout spec of None \<Rightarrow> 300000
                      | Some t \<Rightarrow> if t = 0 then 300000 else t)\<rparr>"

definition runTask ::
  "platform \<Rightarrow> Agent \<Rightarrow> TaskNode \<Rightarrow> world \<Rightarrow> (error + NodeOutput) \<times> world" where
  "runTask x ag spec w =
     (let cacheKey = taskKey x ag spec in
      case (if deterministic spec = Some True then cacheGet cacheKey w else (None, w)) of
        (Some hit, w1) \<Rightarrow> (Inr (hit\<lparr>hash := Some cacheKey, cached := Some True\<rparr>), w1)
      | (None, w1) \<Rightarrow>
          (let w2 = emit (AgentRun (agentName ag)) w1 in
           case agentRun ag (events w1) (taskRequest x spec) of
             Inl m \<Rightarrow> (Inl (AgentFailed m), w2)
           | Inr res \<Rightarrow>
               (let output = \<lparr>result = agResult res,
                      artifacts = (case createdArtifacts res of None \<Rightarrow> [] | Some a \<Rightarrow> a),
                      logs = agLogs res, hash = Some cacheKey, cached = Some False\<rparr>
                in (Inr output,
                    if deterministic spec = Some True
                    then cachePut cacheKey output w2 else w2))))"

section \<open>Fan-out and fan-in nodes (steps/map.ts, steps/reduce.ts)\<close>

definition typeofJ :: "jvalue \<Rightarrow> string" where
  "typeofJ v = (case v of JNull \<Rightarrow> ''object'' | JBool _ \<Rightarrow> ''boolean'' | JNum _ \<Rightarrow> ''number''
                | JStr _ \<Rightarrow> ''string'' | JArr _ \<Rightarrow> ''object'' | JObj _ \<Rightarrow> ''object'')"

text \<open>\<open>Array.isArray(renderedObj) ? renderedObj : [renderedObj]\<close>.\<close>

definition asArray :: "jvalue \<Rightarrow> jvalue list" where
  "asArray v = (case v of JArr xs \<Rightarrow> xs | _ \<Rightarrow> [v])"

text \<open>The first part of \<open>runMap\<close>: the \<open>over\<close> expression resolved to the items.\<close>

definition resolveItems :: "platform \<Rightarrow> MapNode \<Rightarrow> RunState \<Rightarrow> error + jvalue list" where
  "resolveItems x spec state =
     (case over spec of
        JStr s \<Rightarrow>
          (case renderString x (vars state) (outputs state) s of
             Inl m \<Rightarrow> Inl (TemplateError m)
           | Inr resolved \<Rightarrow>
               (case jsonParse x resolved of
                  Some (JArr xs) \<Rightarrow> Inr xs
                | Some v \<Rightarrow> Inl (MapOverNotArray (typeofJ v))
                | None \<Rightarrow>
                    (case renderOver x (vars state) (outputs state) (JStr s) of
                       Inl m \<Rightarrow> Inl (TemplateError m)
                     | Inr renderedObj \<Rightarrow> Inr (asArray renderedObj))))
      | v \<Rightarrow>
          (case renderOver x (vars state) (outputs state) v of
             Inl m \<Rightarrow> Inl (TemplateError m)
           | Inr renderedObj \<Rightarrow> Inr (asArray renderedObj)))"

text \<open>The function given to \<open>limit\<close> for one item; it returns \<open>itemOutput.result\<close>.\<close>

definition runMapItem ::
  "platform \<Rightarrow> MapNode \<Rightarrow> RunState \<Rightarrow> jvalue \<Rightarrow> world \<Rightarrow> (error + jvalue) \<times> world" where
  "runMapItem x spec state item w =
     (case renderBody x (vars state) (outputs state) (Some item) (mapBody spec) of
        Inl m \<Rightarrow> (Inl (TemplateError m), w)
      | Inr (ExecBody execBody) \<Rightarrow>
          (case runExec x execBody w of
             (Inl e, w') \<Rightarrow> (Inl e, w')
           | (Inr itemOutput, w') \<Rightarrow> (Inr (result itemOutput), w'))
      | Inr (TaskBody taskBody) \<Rightarrow>
          (case agentRegistry x (agent taskBody) of
             None \<Rightarrow> (Inl (AgentNotFound (agent taskBody)), w)
           | Some ag \<Rightarrow>
               (case runTask x ag taskBody w of
                  (Inl e, w') \<Rightarrow> (Inl e, w')
                | (Inr itemOutput, w') \<Rightarrow> (Inr (result itemOutput), w')))
      | Inr (OtherBody k) \<Rightarrow> (Inl (UnsupportedMapBody k), w))"

text \<open>
  \<open>Promise.all(items.map((item, index) => limit(...)))\<close> with \<open>limit = pLimit(5)\<close>.
  p-limit and \<open>Promise.all\<close> are library code; what they are documented to do is written
  out as a scheduler. The items wait in input order; at most \<open>limit\<close> of them run at a
  time; when a running item settles, the first waiting one starts. Which running item
  settles next is not decided by the program: it is read from a list of choices, so that a
  statement for all lists of choices is a statement for all completion orders. An item
  acts on the world when it settles. \<open>Promise.all\<close> keeps one slot per input position
  and the first rejection; \<open>peak\<close> records the largest number of items that ran at
  once.
\<close>

record 'a sched =
  slots :: "(error + 'a) option list"
  rejected :: "error option"
  peak :: nat
  schedWorld :: world

text \<open>One settlement: the chosen running item acts, and the first waiting item starts.\<close>

definition settleNext ::
  "(nat \<Rightarrow> world \<Rightarrow> (error + 'a) \<times> world) \<Rightarrow> nat list \<Rightarrow> nat list \<Rightarrow> nat list \<Rightarrow>
   'a sched \<Rightarrow> nat list \<times> 'a sched" where
  "settleNext task choices waiting running s =
     (let k = (case choices of [] \<Rightarrow> 0 | c # _ \<Rightarrow> c mod length running);
          i = running ! k;
          r = task i (schedWorld s);
          stillRunning = take k running @ drop (Suc k) running;
          running' = (case waiting of [] \<Rightarrow> stillRunning | q # _ \<Rightarrow> stillRunning @ [q])
      in (running',
          \<lparr>slots = (slots s)[i := Some (fst r)],
           rejected = (case rejected s of Some e \<Rightarrow> Some e
                       | None \<Rightarrow> (case fst r of Inl e \<Rightarrow> Some e | Inr _ \<Rightarrow> None)),
           peak = max (peak s) (length running'),
           schedWorld = snd r\<rparr>))"

primrec drain ::
  "nat \<Rightarrow> (nat \<Rightarrow> world \<Rightarrow> (error + 'a) \<times> world) \<Rightarrow> nat list \<Rightarrow> nat list \<Rightarrow> nat list \<Rightarrow>
   'a sched \<Rightarrow> 'a sched" where
  "drain 0 task choices waiting running s = s"
| "drain (Suc n) task choices waiting running s =
     (if running = [] then s
      else (case settleNext task choices waiting running s of
              (running', s') \<Rightarrow> drain n task (tl choices) (tl waiting) running' s'))"

definition promiseAllLimit ::
  "nat \<Rightarrow> (nat \<Rightarrow> world \<Rightarrow> (error + 'a) \<times> world) \<Rightarrow> nat \<Rightarrow> nat list \<Rightarrow> world \<Rightarrow> 'a sched" where
  "promiseAllLimit limit task n choices w =
     drain n task choices (drop limit [0..<n]) (take limit [0..<n])
       \<lparr>slots = replicate n None, rejected = None, peak = min limit n, schedWorld = w\<rparr>"

text \<open>The array \<open>Promise.all\<close> resolves to: the values of the slots, by position.\<close>

definition fulfilled :: "(error + 'a) option list \<Rightarrow> 'a list" where
  "fulfilled sl = List.map_filter (\<lambda>r. case r of Some (Inr v) \<Rightarrow> Some v | _ \<Rightarrow> None) sl"

definition mapSchedule ::
  "platform \<Rightarrow> MapNode \<Rightarrow> RunState \<Rightarrow> jvalue list \<Rightarrow> world \<Rightarrow> jvalue sched" where
  "mapSchedule x spec state items w =
     promiseAllLimit 5 (\<lambda>i. runMapItem x spec state (items ! i)) (length items)
       (completionOrder x (events w)) w"

definition runMap ::
  "platform \<Rightarrow> MapNode \<Rightarrow> RunState \<Rightarrow> world \<Rightarrow> (error + NodeOutput) \<times> world" where
  "runMap x spec state w =
     (case resolveItems x spec state of
        Inl e \<Rightarrow> (Inl e, w)
      | Inr items \<Rightarrow>
          (let s = mapSchedule x spec state items w in
           case rejected s of
             Some e \<Rightarrow> (Inl e, schedWorld s)
           | None \<Rightarrow>
               (Inr \<lparr>result = JArr (fulfilled (slots s)), artifacts = [],
                     logs = Some [''Processed '' @ showNat (length items) @ '' items''],
                     hash = None, cached = Some False\<rparr>,
                schedWorld s)))"

definition runReduce ::
  "platform \<Rightarrow> ReduceNode \<Rightarrow> RunState \<Rightarrow> world \<Rightarrow> (error + NodeOutput) \<times> world" where
  "runReduce x spec state w =
     (case renderBody x (vars state) (outputs state) None (reduceBody spec) of
        Inl m \<Rightarrow> (Inl (TemplateError m), w)
      | Inr (ExecBody execBody) \<Rightarrow> runExec x execBody w
      | Inr (TaskBody taskBody) \<Rightarrow>
          (case agentRegistry x (agent taskBody) of
             None \<Rightarrow> (Inl (AgentNotFound (agent taskBody)), w)
           | Some ag \<Rightarrow> runTask x ag taskBody w)
      | Inr (OtherBody k) \<Rightarrow> (Inl (UnsupportedReduceBody k), w))"

section \<open>Node handlers (graph/nodes.ts)\<close>

text \<open>The \<open>try\<close> block of the handler up to the output.\<close>

definition nodeBody ::
  "platform \<Rightarrow> NodeDefinition \<Rightarrow> RunState \<Rightarrow> world \<Rightarrow> (error + NodeOutput) \<times> world" where
  "nodeBody x node state w =
     (case node of
        MapDef mapNode \<Rightarrow> runMap x mapNode state w
      | ReduceDef reduceNode \<Rightarrow> runReduce x reduceNode state w
      | _ \<Rightarrow>
          (case renderNode x (vars state) (outputs state) node of
             Inl m \<Rightarrow> (Inl (TemplateError m), w)
           | Inr (ExecDef resolvedNode) \<Rightarrow> runExec x resolvedNode w
           | Inr (TaskDef taskNode) \<Rightarrow>
               (case agentRegistry x (agent taskNode) of
                  None \<Rightarrow> (Inl (AgentNotFound (agent taskNode)), w)
                | Some ag \<Rightarrow> runTask x ag taskNode w)
           | Inr other \<Rightarrow> (Inl (UnsupportedKind (kindName other)), w)))"

text \<open>
  \<open>createNodeHandler\<close>: the run store is told RUNNING, the node runs, and the handler
  returns the output and the status, or FAILED and the failure record.
\<close>

definition createNodeHandler ::
  "platform \<Rightarrow> NodeDefinition \<Rightarrow> RunState \<Rightarrow> world \<Rightarrow> RunStateUpdate \<times> world" where
  "createNodeHandler x node state w =
     (let nid = defId node in
      case nodeBody x node state (emit (SetNodeStatus nid RUNNING) w) of
        (Inr output, w') \<Rightarrow>
          (let status = (if cached output = Some True then CACHED else SUCCESS) in
           (noUpdate\<lparr>updOutputs := Some (DAList.update nid output DAList.empty),
                     updStatuses := Some (DAList.update nid status DAList.empty)\<rparr>,
            emit (SetNodeStatus nid status) (emit (SetNodeOutput nid output) w')))
      | (Inl e, w') \<Rightarrow>
          (noUpdate\<lparr>updStatuses := Some (DAList.update nid FAILED DAList.empty),
                    updFailed := Some (Some (nid, message e))\<rparr>,
           emit (SetNodeStatus nid FAILED) (emit (SetNodeError nid (message e)) w')))"

section \<open>The conditional edge of the router and the graph loop\<close>

datatype target = END | Goto string

text \<open>The predicate of \<open>addConditionalEdges\<close>; it reads the state the router has updated.\<close>

definition routerEdge :: "WorkflowDefinition \<Rightarrow> RunState \<Rightarrow> error + target" where
  "routerEdge workflow state =
     (let allNodes = map defId (nodes workflow);
          processedNodes = filter (\<lambda>(_, status). status \<noteq> PENDING \<and> status \<noteq> RUNNING)
                             (DAList.impl_of (statuses state))
      in if length processedNodes = length allNodes then Inr END
         else
           (case nextIds state of
              [] \<Rightarrow>
                (let pendingNodes =
                       filter (\<lambda>i. DAList.lookup (statuses state) i = None \<or>
                                   DAList.lookup (statuses state) i = Some PENDING) allNodes
                 in if pendingNodes \<noteq> [] then Inl (Deadlock pendingNodes) else Inr END)
            | n # _ \<Rightarrow> Inr (Goto n)))"

text \<open>
  One round of the compiled graph: the router, its conditional edge, and the handler of
  the node the edge names. \<open>Inl\<close> is the end of the invocation (the final state, or the
  error thrown), \<open>Inr\<close> the state the next round starts from.
\<close>

definition graphStep ::
  "platform \<Rightarrow> WorkflowDefinition \<Rightarrow> RunState \<Rightarrow> world \<Rightarrow>
   ((error + RunState) \<times> world) + (RunState \<times> world)" where
  "graphStep x workflow state w =
     (case router workflow state w of
        (u, w1) \<Rightarrow>
          (let state1 = applyUpdate state u in
           case routerEdge workflow state1 of
             Inl e \<Rightarrow> Inl (Inl e, w1)
           | Inr END \<Rightarrow> Inl (Inr state1, w1)
           | Inr (Goto n) \<Rightarrow>
               (case find (\<lambda>node. defId node = n) (nodes workflow) of
                  None \<Rightarrow> Inl (Inl (NodeNotFound n), w1)
                | Some node \<Rightarrow>
                    (case createNodeHandler x node state1 w1 of
                       (u2, w2) \<Rightarrow> Inr (applyUpdate state1 u2, w2)))))"

section \<open>Invoking the graph\<close>

text \<open>
  The number of nodes of the workflow that are not in a terminal status. Every round that
  does not end the invocation runs one such node to SUCCESS, CACHED or FAILED, so the
  loop of the graph stops.
\<close>

definition openNodes :: "WorkflowDefinition \<Rightarrow> RunState \<Rightarrow> nat" where
  "openNodes workflow state =
     length (filter (\<lambda>n. DAList.lookup (statuses state) (defId n)
                            \<notin> {Some SUCCESS, Some CACHED, Some FAILED, Some SKIPPED})
               (nodes workflow))"

function invoke ::
  "platform \<Rightarrow> WorkflowDefinition \<Rightarrow> RunState \<Rightarrow> world \<Rightarrow> (error + RunState) \<times> world" where
  "invoke x workflow state w =
     (case graphStep x workflow state w of
        Inl r \<Rightarrow> r
      | Inr (state', w') \<Rightarrow> invoke x workflow state' w')"
  by pat_completeness auto

section \<open>The runtime (graph/runtime.ts)\<close>

text \<open>A new run: every node is set to PENDING, in the state and in the run store.\<close>

fun initStatuses ::
  "NodeDefinition list \<Rightarrow> (string, NodeStatus) alist \<times> world \<Rightarrow>
   (string, NodeStatus) alist \<times> world" where
  "initStatuses [] acc = acc"
| "initStatuses (node # rest) (initialStatuses, w) =
     initStatuses rest
       (DAList.update (defId node) PENDING initialStatuses,
        emit (SetNodeStatus (defId node) PENDING) w)"

text \<open>
  A resumed run: the loop over the entries of the checkpointed statuses collects the
  FAILED and SKIPPED nodes, and the initial state is the checkpoint with these set to
  PENDING and with the failure record cleared.
\<close>

fun resetLoop ::
  "(string \<times> NodeStatus) list \<Rightarrow> (string, NodeStatus) alist \<times> world \<Rightarrow>
   (string, NodeStatus) alist \<times> world" where
  "resetLoop [] acc = acc"
| "resetLoop ((nid, status) # es) (statusUpdates, w) =
     (if status = FAILED \<or> status = SKIPPED
      then resetLoop es
             (DAList.update nid PENDING statusUpdates, emit (SetNodeStatus nid PENDING) w)
      else resetLoop es (statusUpdates, w))"

definition resumeState :: "RunState \<Rightarrow> world \<Rightarrow> RunState \<times> world" where
  "resumeState checkpoint w =
     (case resetLoop (DAList.impl_of (statuses checkpoint)) (DAList.empty, w) of
        (statusUpdates, w') \<Rightarrow>
          (checkpoint\<lparr>statuses := mergeRecord (statuses checkpoint) statusUpdates,
                      failed := None\<rparr>, w'))"

text \<open>
  \<open>graph.invoke(initialState, config)\<close>. What the library does with the input
  \<open>null\<close> (a resume that found no checkpoint) is not in the repository.
\<close>

definition graphInvoke ::
  "platform \<Rightarrow> WorkflowDefinition \<Rightarrow> RunState option \<Rightarrow> world \<Rightarrow> (error + RunState) \<times> world" where
  "graphInvoke x workflow initialState w =
     (case initialState of
        Some state \<Rightarrow> invoke x workflow state w
      | None \<Rightarrow>
          (case invokeWithoutInput x of
             Inl m \<Rightarrow> (Inl (InvokeError m), w)
           | Inr state \<Rightarrow> invoke x workflow state w))"

definition skippedCount :: "RunState \<Rightarrow> nat" where
  "skippedCount state = length (filter (\<lambda>(_, s). s = SKIPPED) (DAList.impl_of (statuses state)))"

text \<open>
  The \<open>try\<close> block of \<open>run\<close>: invoke the graph, then map the final state to success or
  failure; whatever is thrown inside is caught, the run is marked failed, and the error
  is thrown again.
\<close>

definition finishRun ::
  "platform \<Rightarrow> WorkflowDefinition \<Rightarrow> RunState option \<Rightarrow> world \<Rightarrow> (error + unit) \<times> world" where
  "finishRun x workflow initialState w =
     (case graphInvoke x workflow initialState w of
        (Inl e, w1) \<Rightarrow> (Inl e, emit (Complete ''failed'') w1)
      | (Inr finalState, w1) \<Rightarrow>
          (case failed finalState of
             Some (failedNode, err) \<Rightarrow>
               (Inl (WorkflowFailedAt failedNode err (skippedCount finalState)),
                emit (Complete ''failed'') (emit (Complete ''failed'') w1))
           | None \<Rightarrow>
               (let failedNodes = map fst (filter (\<lambda>(_, s). s = FAILED)
                                              (DAList.impl_of (statuses finalState)))
                in if failedNodes \<noteq> []
                   then (Inl (WorkflowFailedNodes failedNodes (skippedCount finalState)),
                         emit (Complete ''failed'') (emit (Complete ''failed'') w1))
                   else (Inr (), emit (Complete ''success'') w1))))"

text \<open>
  \<open>WorkflowRuntime.run\<close>. Its context gives the thread id of a resume (absent for a new
  run) and the checkpointer; \<open>checkpoint\<close> is what \<open>graph.getState\<close> returns for the
  thread.
\<close>

definition run ::
  "platform \<Rightarrow> WorkflowDefinition \<Rightarrow> string option \<Rightarrow> bool \<Rightarrow> RunState option \<Rightarrow> world \<Rightarrow>
   (error + unit) \<times> world" where
  "run x workflow ctxThreadId hasCheckpointer checkpoint w =
     (let isResume = (case ctxThreadId of None \<Rightarrow> False | Some t \<Rightarrow> t \<noteq> []) in
      if \<not> isResume
      then (case initStatuses (nodes workflow) (DAList.empty, w) of
              (initialStatuses, w1) \<Rightarrow>
                finishRun x workflow
                  (Some ((createInitialState
                            (case wfVars workflow of None \<Rightarrow> DAList.empty | Some v \<Rightarrow> v))
                         \<lparr>statuses := initialStatuses\<rparr>)) w1)
      else if \<not> hasCheckpointer then (Inl CannotResume, w)
      else (case checkpoint of
              Some values \<Rightarrow>
                (case resumeState values w of
                   (initialState, w1) \<Rightarrow> finishRun x workflow (Some initialState) w1)
            | None \<Rightarrow> finishRun x workflow None w))"

section \<open>The run store (store/run-store.ts)\<close>

text \<open>
  The metadata of a run as kept in \<open>run.json\<close>. A point in time is a number of
  milliseconds. The store lives in a system that has the \<open>run.json\<close> of every run
  directory, a clock, and the strings the coming calls of
  \<open>Math.random().toString(36).substr(2, 9)\<close> will give.
\<close>

record NodeMeta =
  nmStatus :: NodeStatus
  nmStartTime :: "nat option"
  nmEndTime :: "nat option"
  nmDuration :: "int option"
  nmOutput :: "NodeOutput option"
  nmError :: "string option"

datatype RunStatus = Running | Succeeded | Failed

record RunMetadata =
  workflowName :: string
  threadId :: string
  checkpointDbPath :: string
  startTime :: nat
  endTime :: "nat option"
  runStatus :: RunStatus
  metaNodes :: "(string, NodeMeta) alist"

record RunStore =
  runDir :: string
  metadata :: RunMetadata

record sys =
  runJson :: "string \<Rightarrow> RunMetadata option"
  clock :: nat
  randoms :: "string list"

definition generateThreadId :: "sys \<Rightarrow> string \<times> sys" where
  "generateThreadId s =
     (''run-'' @ showNat (clock s) @ ''-'' @ (case randoms s of [] \<Rightarrow> [] | r # _ \<Rightarrow> r),
      s\<lparr>randoms := tl (randoms s)\<rparr>)"

text \<open>The constructor: \<open>threadId: threadId || this.generateThreadId()\<close>.\<close>

definition newRunStore :: "string \<Rightarrow> string \<Rightarrow> string option \<Rightarrow> sys \<Rightarrow> RunStore \<times> sys" where
  "newRunStore dir name tid s =
     (case (case tid of None \<Rightarrow> generateThreadId s
            | Some t \<Rightarrow> if t = [] then generateThreadId s else (t, s)) of
        (t, s') \<Rightarrow>
          (\<lparr>runDir = dir,
            metadata = \<lparr>workflowName = name, threadId = t,
                        checkpointDbPath = dir @ ''/checkpoints.db'',
                        startTime = clock s', endTime = None, runStatus = Running,
                        metaNodes = DAList.empty\<rparr>\<rparr>, s'))"

definition save :: "RunStore \<Rightarrow> sys \<Rightarrow> sys" where
  "save store s = s\<lparr>runJson := (runJson s)(runDir store \<mapsto> metadata store)\<rparr>"

definition init :: "RunStore \<Rightarrow> sys \<Rightarrow> sys" where
  "init store s = save store s"

definition setNodeStatus :: "string \<Rightarrow> NodeStatus \<Rightarrow> RunStore \<Rightarrow> sys \<Rightarrow> RunStore \<times> sys" where
  "setNodeStatus nid status store s =
     (let ns = metaNodes (metadata store);
          ns' = (case DAList.lookup ns nid of
                   None \<Rightarrow>
                     DAList.update nid
                       \<lparr>nmStatus = status, nmStartTime = Some (clock s), nmEndTime = None,
                        nmDuration = None, nmOutput = None, nmError = None\<rparr> ns
                 | Some nm \<Rightarrow>
                     if status = SUCCESS \<or> status = FAILED \<or> status = CACHED
                     then DAList.update nid
                            (nm\<lparr>nmStatus := status, nmEndTime := Some (clock s),
                                nmDuration := (case nmStartTime nm of
                                                 None \<Rightarrow> nmDuration nm
                                               | Some t0 \<Rightarrow> Some (int (clock s) - int t0))\<rparr>)
                            ns
                     else DAList.update nid (nm\<lparr>nmStatus := status\<rparr>) ns);
          store' = store\<lparr>metadata := (metadata store)\<lparr>metaNodes := ns'\<rparr>\<rparr>
      in (store', save store' s))"

definition setNodeOutput :: "string \<Rightarrow> NodeOutput \<Rightarrow> RunStore \<Rightarrow> sys \<Rightarrow> RunStore \<times> sys" where
  "setNodeOutput nid out store s =
     (let ns = metaNodes (metadata store);
          nm = (case DAList.lookup ns nid of
                  None \<Rightarrow> \<lparr>nmStatus = SUCCESS, nmStartTime = None, nmEndTime = None,
                           nmDuration = None, nmOutput = None, nmError = None\<rparr>
                | Some nm \<Rightarrow> nm);
          store' = store\<lparr>metadata := (metadata store)
                     \<lparr>metaNodes := DAList.update nid (nm\<lparr>nmOutput := Some out\<rparr>) ns\<rparr>\<rparr>
      in (store', save store' s))"

definition setNodeError :: "string \<Rightarrow> string \<Rightarrow> RunStore \<Rightarrow> sys \<Rightarrow> RunStore \<times> sys" where
  "setNodeError nid err store s =
     (let ns = metaNodes (metadata store);
          nm = (case DAList.lookup ns nid of
                  None \<Rightarrow> \<lparr>nmStatus = FAILED, nmStartTime = None, nmEndTime = None,
                           nmDuration = None, nmOutput = None, nmError = None\<rparr>
                | Some nm \<Rightarrow> nm);
          store' = store\<lparr>metadata := (metadata store)
                     \<lparr>metaNodes := DAList.update nid
                        (nm\<lparr>nmError := Some err, nmStatus := FAILED\<rparr>) ns\<rparr>\<rparr>
      in (store', save store' s))"

definition complete :: "RunStatus \<Rightarrow> RunStore \<Rightarrow> sys \<Rightarrow> RunStore \<times> sys" where
  "complete status store s =
     (let store' = store\<lparr>metadata := (metadata store)
                     \<lparr>endTime := Some (clock s), runStatus := status\<rparr>\<rparr>
      in (store', save store' s))"

definition getThreadId :: "RunStore \<Rightarrow> string" where
  "getThreadId store = threadId (metadata store)"

text \<open>\<open>RunStore.load\<close> reads \<open>run.json\<close>; \<open>None\<close> when the file cannot be read.\<close>

definition load :: "string \<Rightarrow> sys \<Rightarrow> RunMetadata option" where
  "load dir s = runJson s dir"

definition loadForResume :: "string \<Rightarrow> sys \<Rightarrow> RunStore option \<times> sys" where
  "loadForResume dir s =
     (case load dir s of
        None \<Rightarrow> (None, s)
      | Some m \<Rightarrow>
          (case newRunStore dir (workflowName m) (Some (threadId m)) s of
             (store, s') \<Rightarrow> (Some (store\<lparr>metadata := m\<rparr>), s')))"

text \<open>
  What can happen to the store of one run directory after it was created: the engine
  calls its methods, time passes, and the run is resumed (by the same or by a later
  process), which replaces the store object by the one \<open>loadForResume\<close> builds.
\<close>

datatype storeOp =
    OpStatus string NodeStatus
  | OpOutput string NodeOutput
  | OpError string string
  | OpComplete RunStatus
  | OpWait nat
  | OpResume

fun applyOp :: "storeOp \<Rightarrow> RunStore \<times> sys \<Rightarrow> RunStore \<times> sys" where
  "applyOp (OpStatus nid status) (store, s) = setNodeStatus nid status store s"
| "applyOp (OpOutput nid out) (store, s) = setNodeOutput nid out store s"
| "applyOp (OpError nid err) (store, s) = setNodeError nid err store s"
| "applyOp (OpComplete status) (store, s) = complete status store s"
| "applyOp (OpWait ms) (store, s) = (store, s\<lparr>clock := clock s + ms\<rparr>)"
| "applyOp OpResume (store, s) =
     (case loadForResume (runDir store) s of
        (Some store', s') \<Rightarrow> (store', s')
      | (None, s') \<Rightarrow> (store, s'))"

definition createRun :: "string \<Rightarrow> string \<Rightarrow> sys \<Rightarrow> RunStore \<times> sys" where
  "createRun dir name s =
     (case newRunStore dir name None s of (store, s') \<Rightarrow> (store, init store s'))"

text \<open>The thread id of a run directory, in the store object and in \<open>run.json\<close>.\<close>

definition holdsId :: "string \<Rightarrow> string \<Rightarrow> string list \<Rightarrow> RunStore \<times> sys \<Rightarrow> bool" where
  "holdsId dir t rs p =
     (case p of (store, s) \<Rightarrow>
        runDir store = dir \<and> getThreadId store = t \<and>
        map_option threadId (load dir s) = Some t \<and> randoms s = rs)"


section \<open>The invariant of the fan-out scheduler\<close>



section \<open>A concrete workflow and platform\<close>

text \<open>
  The instances the theorems below are applied to: a chain of three command nodes
  \<open>A \<leftarrow> B \<leftarrow> C\<close> whose first command is \<open>false\<close>, and a platform on which
  \<open>false\<close> exits with code 1 and every other command with code 0.
\<close>

definition demoExecNode :: "string \<Rightarrow> string list \<Rightarrow> string \<Rightarrow> ExecNode" where
  "demoExecNode i ds cmd =
     \<lparr>nodeId = i, nodeName = None, deps = Some ds, deterministic = None,
      timeout = None, retries = None, command = cmd, args = None, cwd = None, env = None,
      produces = None\<rparr>"

definition demoExec :: "string \<Rightarrow> string list \<Rightarrow> string \<Rightarrow> NodeDefinition" where
  "demoExec i ds cmd = ExecDef (demoExecNode i ds cmd)"

definition chainWorkflow :: WorkflowDefinition where
  "chainWorkflow =
     \<lparr>version = 1, wfName = ''chain'', concurrency = None, wfVars = None,
      nodes = [demoExec ''A'' [] ''false'', demoExec ''B'' [''A''] ''echo'',
               demoExec ''C'' [''B''] ''echo'']\<rparr>"

definition okChain :: WorkflowDefinition where
  "okChain =
     \<lparr>version = 1, wfName = ''chain'', concurrency = None, wfVars = None,
      nodes = [demoExec ''A'' [] ''echo'', demoExec ''B'' [''A''] ''echo'',
               demoExec ''C'' [''B''] ''echo'']\<rparr>"

text \<open>
  The chain after an edit between two runs: node A is deleted and C now names a
  dependency that does not exist.
\<close>

definition editedChain :: WorkflowDefinition where
  "editedChain =
     \<lparr>version = 1, wfName = ''chain'', concurrency = None, wfVars = None,
      nodes = [demoExec ''B'' [''A''] ''echo'', demoExec ''C'' [''Bx''] ''echo'']\<rparr>"

definition emptyWorld :: world where
  "emptyWorld = \<lparr>cache = Map.empty, events = []\<rparr>"

definition stateOf :: "(string \<times> NodeStatus) list \<Rightarrow> RunState" where
  "stateOf sts =
     (createInitialState DAList.empty)
       \<lparr>statuses := fold (\<lambda>(k, v). DAList.update k v) sts DAList.empty\<rparr>"

text \<open>The checkpoint of a run in which A succeeded, B failed and C was skipped.\<close>

definition demoCheckpoint :: RunState where
  "demoCheckpoint =
     (stateOf [(''A'', SUCCESS), (''B'', FAILED), (''C'', SKIPPED)])
       \<lparr>failed := Some (''B'', ''boom'')\<rparr>"

definition demoAgent :: Agent where
  "demoAgent =
     \<lparr>agentName = ''echo-agent'',
      agentRun = (\<lambda>_ req. Inr \<lparr>agResult = JStr (reqPrompt req), createdArtifacts = None,
                               agLogs = None\<rparr>)\<rparr>"

definition demoPlatform :: platform where
  "demoPlatform =
     \<lparr>sha256hex = (\<lambda>s. s),
      jsonStringify = (\<lambda>p. case p of
          ExecPayload c as d e pr \<Rightarrow> ''exec '' @ c @ '' '' @ joinWith '' '' as
        | TaskPayload a pr i e \<Rightarrow> ''task '' @ a @ '' '' @ pr),
      processCwd = ''/work'',
      pathResolve = (\<lambda>f. ''/work/'' @ f),
      spawnProc = (\<lambda>_ cmd as _ _.
          \<lparr>spawnError = None, closeAfter = 10,
           exitCode = Some (if cmd = ''false'' then 1 else 0),
           stdoutData = joinWith '' '' as @ [CHR 0x0A],
           stderrData = (if cmd = ''false'' then '' boom '' else [])\<rparr>),
      fsAccess = (\<lambda>_ _. True),
      readJsonFile = (\<lambda>_ _. Inr JNull),
      agentRegistry = (\<lambda>n. if n = ''echo-agent'' then Some demoAgent else None),
      renderNode = (\<lambda>_ _ n. Inr n),
      renderString = (\<lambda>_ _ s. Inr s),
      jsonParse = (\<lambda>_. None),
      renderOver = (\<lambda>_ _ v. Inr v),
      renderBody = (\<lambda>_ _ item b. case (item, b) of
          (Some (JStr s), ExecBody e) \<Rightarrow> Inr (ExecBody (e\<lparr>args := Some [s]\<rparr>))
        | _ \<Rightarrow> Inr b),
      completionOrder = (\<lambda>_. [1, 0]),
      invokeWithoutInput = Inl ''EmptyInputError''\<rparr>"

definition demoTaskNode :: TaskNode where
  "demoTaskNode =
     \<lparr>nodeId = ''t'', nodeName = None, deps = None, deterministic = None,
      timeout = None, retries = None, agent = ''echo-agent'', prompt = ''hello'',
      inputs = None, taskArtifacts = None, taskEnv = None, taskCwd = None\<rparr>"

definition nonDetNode :: ExecNode where
  "nonDetNode = (demoExecNode ''n'' [] ''echo'')\<lparr>deterministic := Some False\<rparr>"


definition demoMapNode :: MapNode where
  "demoMapNode =
     \<lparr>nodeId = ''m'', nodeName = None, deps = None, deterministic = Some True,
      timeout = None, retries = None,
      over = JArr [JStr ''a'', JStr ''b''],
      mapBody = ExecBody (demoExecNode ''item'' [] ''echo'')\<rparr>"

definition echoOut :: NodeOutput where
  "echoOut =
     \<lparr>result = JObj [(''stdout'', JStr []), (''stderr'', JStr []), (''exitCode'', JNum 0)],
      artifacts = [], logs = None, hash = Some ''exec echo '', cached = Some False\<rparr>"



definition demoSys :: sys where
  "demoSys = \<lparr>runJson = Map.empty, clock = 7, randoms = [''abc123xyz'', ''zzz'']\<rparr>"

definition demoOps :: "storeOp list" where
  "demoOps = [OpStatus ''A'' PENDING, OpStatus ''A'' RUNNING, OpWait 5, OpStatus ''A'' FAILED,
              OpComplete Failed, OpResume, OpStatus ''A'' PENDING, OpResume]"





section \<open>Facts about the router\<close>

lemma categorize_sets:
  "categorize es (c, f, s) =
     (c \<union> {k. \<exists>st. (k, st) \<in> set es \<and> (st = SUCCESS \<or> st = CACHED)},
      f \<union> {k. (k, FAILED) \<in> set es},
      s \<union> {k. (k, SKIPPED) \<in> set es})"
proof (induction es arbitrary: c f s)
  case Nil
  then show ?case by simp
next
  case (Cons e es)
  obtain k st where e: "e = (k, st)" by (cases e)
  show ?case unfolding e by (cases st) (auto simp: Cons.IH)
qed

lemma categorize_lookup:
  "categorize (DAList.impl_of sts) ({}, {}, {}) =
     ({k. DAList.lookup sts k = Some SUCCESS \<or> DAList.lookup sts k = Some CACHED},
      {k. DAList.lookup sts k = Some FAILED},
      {k. DAList.lookup sts k = Some SKIPPED})"
  by (auto simp: categorize_sets DAList.lookup.rep_eq)

lemma routerLoop_step:
  "routerLoop cat state (n # ns) (ready, su, w) =
     (if skipBranch cat state n
      then routerLoop cat state ns
             (ready, DAList.update (defId n) SKIPPED su, emit (SetNodeStatus (defId n) SKIPPED) w)
      else if readyBranch cat state n
      then routerLoop cat state ns (ready @ [defId n], su, w)
      else routerLoop cat state ns (ready, su, w))"
proof -
  obtain c f s where cat: "cat = (c, f, s)" by (cases cat)
  show ?thesis unfolding cat skipBranch_def readyBranch_def
    by (simp add: Let_def)
qed

lemma routerLoop_ready:
  "fst (routerLoop cat state ns (ready, su, w)) =
     ready @ map defId (filter (readyBranch cat state) ns)"
proof (induction ns arbitrary: ready su w)
  case Nil
  then show ?case by (cases cat) simp
next
  case (Cons n ns)
  show ?case
    unfolding routerLoop_step using Cons.IH
    by (simp add: skipBranch_def readyBranch_def split: prod.splits)
qed

lemma routerLoop_updates:
  "DAList.lookup (fst (snd (routerLoop cat state ns (ready, su, w)))) k =
     (if \<exists>n \<in> set ns. defId n = k \<and> skipBranch cat state n then Some SKIPPED
      else DAList.lookup su k)"
proof (induction ns arbitrary: ready su w)
  case Nil
  then show ?case by (cases cat) simp
next
  case (Cons n ns)
  show ?case
    unfolding routerLoop_step using Cons.IH by (auto simp: DAList.lookup_update)
qed

lemma fold_update_lookup:
  "distinct (map fst es) \<Longrightarrow>
   DAList.lookup (fold (\<lambda>(k, v). DAList.update k v) es l) k =
     (case map_of es k of Some v \<Rightarrow> Some v | None \<Rightarrow> DAList.lookup l k)"
proof (induction es arbitrary: l)
  case Nil
  then show ?case by simp
next
  case (Cons e es)
  obtain a b where e: "e = (a, b)" by (cases e)
  from Cons.prems have d: "distinct (map fst es)" and a: "a \<notin> fst ` set es"
    by (auto simp: e)
  from a have "map_of es a = None" by (simp add: map_of_eq_None_iff)
  then show ?case using Cons.IH[OF d]
    by (auto simp: e DAList.lookup_update split: option.splits)
qed

lemma mergeRecord_lookup:
  "DAList.lookup (mergeRecord l r) k =
     (case DAList.lookup r k of Some v \<Rightarrow> Some v | None \<Rightarrow> DAList.lookup l k)"
  unfolding mergeRecord_def
  by (simp add: fold_update_lookup DAList.lookup.rep_eq[of r])

lemma router_result:
  "router workflow state w =
     (noUpdate\<lparr>updNext := Some (fst (routerScan workflow state w)),
               updStatuses := Some (fst (snd (routerScan workflow state w)))\<rparr>,
      snd (snd (routerScan workflow state w)))"
  by (simp add: router_def split: prod.splits)

lemma tick_next: "nextIds (tick workflow state w) = fst (routerScan workflow state w)"
  by (simp add: tick_def router_result applyUpdate_def noUpdate_def)

lemma tick_statuses:
  "statuses (tick workflow state w) =
     mergeRecord (statuses state) (fst (snd (routerScan workflow state w)))"
  by (simp add: tick_def router_result applyUpdate_def noUpdate_def)

text \<open>A status is terminal when it is none of PENDING, RUNNING and absent.\<close>

lemma tick_keeps_terminal:
  assumes "DAList.lookup (statuses state) k
             \<in> {Some SUCCESS, Some CACHED, Some FAILED, Some SKIPPED}"
  shows "DAList.lookup (statuses (tick workflow state w)) k = DAList.lookup (statuses state) k"
proof -
  have "\<And>m. defId m = k \<Longrightarrow>
          \<not> skipBranch (categorize (DAList.impl_of (statuses state)) ({}, {}, {})) state m"
    using assms by (auto simp: skipBranch_def categorize_lookup)
  then have "DAList.lookup (fst (snd (routerScan workflow state w))) k = None"
    by (auto simp: routerScan_def routerLoop_updates)
  then show ?thesis by (simp add: tick_statuses mergeRecord_lookup)
qed

lemma tick_status_cases:
  "DAList.lookup (statuses (tick workflow state w)) k = DAList.lookup (statuses state) k \<or>
   DAList.lookup (statuses (tick workflow state w)) k = Some SKIPPED"
  by (simp add: tick_statuses mergeRecord_lookup routerScan_def routerLoop_updates)

lemma handler_Inr:
  "nodeBody x node state (emit (SetNodeStatus (defId node) RUNNING) w) = (Inr output, w') \<Longrightarrow>
   createNodeHandler x node state w =
     (noUpdate\<lparr>updOutputs := Some (DAList.update (defId node) output DAList.empty),
               updStatuses := Some (DAList.update (defId node)
                  (if cached output = Some True then CACHED else SUCCESS) DAList.empty)\<rparr>,
      emit (SetNodeStatus (defId node) (if cached output = Some True then CACHED else SUCCESS))
        (emit (SetNodeOutput (defId node) output) w'))"
  by (simp add: createNodeHandler_def Let_def)

lemma handler_Inl:
  "nodeBody x node state (emit (SetNodeStatus (defId node) RUNNING) w) = (Inl e, w') \<Longrightarrow>
   createNodeHandler x node state w =
     (noUpdate\<lparr>updStatuses := Some (DAList.update (defId node) FAILED DAList.empty),
               updFailed := Some (Some (defId node, message e))\<rparr>,
      emit (SetNodeStatus (defId node) FAILED) (emit (SetNodeError (defId node) (message e)) w'))"
  by (simp add: createNodeHandler_def Let_def)

lemma handler_statuses:
  "\<exists>s \<in> {CACHED, SUCCESS, FAILED}.
     \<forall>k. DAList.lookup (statuses (applyUpdate state (fst (createNodeHandler x node state' w)))) k =
          (if k = defId node then Some s else DAList.lookup (statuses state) k)"
proof (cases "nodeBody x node state' (emit (SetNodeStatus (defId node) RUNNING) w)")
  case (Pair r w')
  show ?thesis
  proof (cases r)
    case (Inl e)
    have "\<forall>k. DAList.lookup (statuses (applyUpdate state (fst (createNodeHandler x node state' w)))) k =
          (if k = defId node then Some FAILED else DAList.lookup (statuses state) k)"
      using Pair Inl
      by (simp add: handler_Inl applyUpdate_def noUpdate_def mergeRecord_lookup
          DAList.lookup_update)
    then show ?thesis by blast
  next
    case (Inr out)
    have "\<forall>k. DAList.lookup (statuses (applyUpdate state (fst (createNodeHandler x node state' w)))) k =
          (if k = defId node then Some (if cached out = Some True then CACHED else SUCCESS)
           else DAList.lookup (statuses state) k)"
      using Pair Inr
      by (simp add: handler_Inr applyUpdate_def noUpdate_def mergeRecord_lookup
          DAList.lookup_update)
    then show ?thesis by (cases "cached out = Some True") auto
  qed
qed

lemma filter_length_mono:
  "(\<And>x. x \<in> set xs \<Longrightarrow> Q x \<Longrightarrow> P x) \<Longrightarrow> length (filter Q xs) \<le> length (filter P xs)"
  by (induction xs) auto

lemma filter_length_strict:
  "(\<And>x. x \<in> set xs \<Longrightarrow> Q x \<Longrightarrow> P x) \<Longrightarrow> y \<in> set xs \<Longrightarrow> P y \<Longrightarrow> \<not> Q y \<Longrightarrow>
   length (filter Q xs) < length (filter P xs)"
proof (induction xs)
  case Nil
  then show ?case by simp
next
  case (Cons x xs)
  have mono: "length (filter Q xs) \<le> length (filter P xs)"
    using Cons.prems(1) by (intro filter_length_mono) auto
  show ?case
  proof (cases "y = x")
    case True
    then show ?thesis using Cons.prems mono by simp
  next
    case False
    then have "length (filter Q xs) < length (filter P xs)"
      using Cons by auto
    then show ?thesis using Cons.prems(1)[of x] by auto
  qed
qed

section \<open>The graph loop stops\<close>

lemma graphStep_decreases:
  assumes "graphStep x workflow state w = Inr (state', w')"
  shows "openNodes workflow state' < openNodes workflow state"
proof -
  let ?cat = "categorize (DAList.impl_of (statuses state)) ({}, {}, {})"
  let ?st1 = "tick workflow state w"
  let ?w1 = "snd (router workflow state w)"
  have st1: "applyUpdate state (fst (router workflow state w)) = ?st1"
    by (simp add: tick_def)
  from assms obtain n rest node where
    nx: "nextIds ?st1 = n # rest" and
    fd: "find (\<lambda>node. defId node = n) (nodes workflow) = Some node" and
    st': "state' = applyUpdate ?st1 (fst (createNodeHandler x node ?st1 ?w1))"
    by (auto simp: graphStep_def routerEdge_def Let_def tick_def
        split: prod.splits sum.splits target.splits list.splits option.splits if_splits)
  from fd have nid: "defId node = n" and nin: "node \<in> set (nodes workflow)"
    by (auto simp: find_Some_iff)
  from nx have "n \<in> set (fst (routerScan workflow state w))"
    by (simp add: tick_next)
  then obtain m where m: "m \<in> set (nodes workflow)" "defId m = n" "readyBranch ?cat state m"
    by (auto simp: routerScan_def routerLoop_ready)
  from m have open0: "DAList.lookup (statuses state) n
                        \<notin> {Some SUCCESS, Some CACHED, Some FAILED, Some SKIPPED}"
    by (auto simp: readyBranch_def categorize_lookup)
  obtain s where s: "s \<in> {CACHED, SUCCESS, FAILED}"
    and look: "\<And>k. DAList.lookup (statuses state') k =
                 (if k = defId node then Some s else DAList.lookup (statuses ?st1) k)"
    using handler_statuses[of ?st1 x node ?st1 ?w1] unfolding st' by blast
  have closed: "DAList.lookup (statuses state') n
                  \<in> {Some SUCCESS, Some CACHED, Some FAILED, Some SKIPPED}"
    using s look[of n] nid by auto
  have keep: "\<And>k. DAList.lookup (statuses state') k
                      \<notin> {Some SUCCESS, Some CACHED, Some FAILED, Some SKIPPED} \<Longrightarrow>
                   DAList.lookup (statuses state) k
                      \<notin> {Some SUCCESS, Some CACHED, Some FAILED, Some SKIPPED}"
  proof -
    fix k
    assume a: "DAList.lookup (statuses state') k
                 \<notin> {Some SUCCESS, Some CACHED, Some FAILED, Some SKIPPED}"
    then have "k \<noteq> defId node" using s look[of k] by auto
    then have "DAList.lookup (statuses state') k = DAList.lookup (statuses ?st1) k"
      using look[of k] by simp
    then show "DAList.lookup (statuses state) k
                 \<notin> {Some SUCCESS, Some CACHED, Some FAILED, Some SKIPPED}"
      using a tick_keeps_terminal[of state k workflow w] by auto
  qed
  show ?thesis
    unfolding openNodes_def
    by (rule filter_length_strict[where y = node]) (use keep nin nid open0 closed in auto)
qed


termination invoke
  by (relation "measure (\<lambda>(x, workflow, state, w). openNodes workflow state)")
     (auto simp: graphStep_decreases)

declare invoke.simps [simp del]

section \<open>Facts about the executors\<close>

lemma aux_event_class:
  "isAuxEvent e \<Longrightarrow> \<not> isCacheEvent e \<and> \<not> isRunEvent e \<and> \<not> isStoreEvent e"
  by (cases e) (simp_all add: isAuxEvent_def isCacheEvent_def isRunEvent_def isStoreEvent_def)

lemma verifyFiles_frame:
  "verifyFiles x fs arts w = (r, w') \<Longrightarrow>
   cache w' = cache w \<and>
   (\<exists>evs. events w' = events w @ evs \<and> (\<forall>e \<in> set evs. \<exists>p. e = FsAccess p))"
proof (induction fs arbitrary: arts w)
  case Nil
  then show ?case by simp
next
  case (Cons f fs)
  show ?case
  proof (cases "fsAccess x (events w) (pathResolve x f)")
    case True
    with Cons.prems have "verifyFiles x fs (arts @ [pathResolve x f])
        (emit (FsAccess (pathResolve x f)) w) = (r, w')"
      by (simp add: Let_def)
    from Cons.IH[OF this] show ?thesis by (auto simp: emit_def)
  next
    case False
    with Cons.prems show ?thesis by (auto simp: Let_def emit_def)
  qed
qed

lemma readResult_frame:
  "readResult x spec d w = (r, w') \<Longrightarrow>
   cache w' = cache w \<and>
   (\<exists>evs. events w' = events w @ evs \<and> (\<forall>e \<in> set evs. \<exists>p. e = FsReadFile p))"
  by (auto simp: readResult_def emit_def split: option.splits if_splits sum.splits)



text \<open>What a successful command run leaves behind.\<close>

lemma execProcess_ok:
  assumes "execProcess x spec key w = (Inr out, w')"
  shows "hash out = Some key \<and> cached out = Some False \<and>
         (\<exists>evs. events w' = events w @ Spawn (command spec) (argsOf spec) # evs @
                   (if deterministic spec \<noteq> Some False then [CachePut key out] else []) \<and>
                 (\<forall>e \<in> set evs. isAuxEvent e)) \<and>
         cache w' = (if deterministic spec \<noteq> Some False then (cache w)(key \<mapsto> out) else cache w)"
proof -
  let ?w1 = "emit (Spawn (command spec) (argsOf spec)) w"
  let ?p = "childOf x spec w"
  let ?fs = "case produces spec of None \<Rightarrow> []
             | Some pr \<Rightarrow> (case files pr of None \<Rightarrow> [] | Some fs \<Rightarrow> fs)"
  let ?d = "JObj [(''stdout'', JStr (trim (stdoutData ?p))), (''stderr'', JStr (trim (stderrData ?p))),
                  (''exitCode'', JNum 0)]"
  from assms obtain arts w2 res w3 where
    vf: "verifyFiles x ?fs [] ?w1 = (Inr arts, w2)" and
    rr: "readResult x spec ?d w2 = (Inr res, w3)" and
    out: "out = \<lparr>result = res, artifacts = arts, logs = None, hash = Some key, cached = Some False\<rparr>" and
    w': "w' = (if deterministic spec \<noteq> Some False then cachePut key out w3 else w3)"
    by (auto simp: execProcess_def Let_def split: exitWait.splits if_splits prod.splits sum.splits)
  from verifyFiles_frame[OF vf] obtain e1 where
    c2: "cache w2 = cache ?w1" and e2: "events w2 = events ?w1 @ e1"
    and a1: "\<forall>e \<in> set e1. \<exists>p. e = FsAccess p" by blast
  from readResult_frame[OF rr] obtain e2' where
    c3: "cache w3 = cache w2" and e3: "events w3 = events w2 @ e2'"
    and a2: "\<forall>e \<in> set e2'. \<exists>p. e = FsReadFile p" by blast
  have ev: "events w3 = events w @ Spawn (command spec) (argsOf spec) # (e1 @ e2')"
    using e2 e3 by (simp add: emit_def)
  have nc: "\<forall>e \<in> set (e1 @ e2'). isAuxEvent e"
    using a1 a2 by (auto simp: isAuxEvent_def)
  have c: "cache w3 = cache w" using c2 c3 by (simp add: emit_def)
  show ?thesis
  proof (intro conjI)
    show "hash out = Some key" "cached out = Some False" using out by simp_all
    show "\<exists>evs. events w' = events w @ Spawn (command spec) (argsOf spec) # evs @
                   (if deterministic spec \<noteq> Some False then [CachePut key out] else []) \<and>
                 (\<forall>e \<in> set evs. isAuxEvent e)"
      using ev nc w' by (intro exI[of _ "e1 @ e2'"]) (simp add: cachePut_def emit_def)
    show "cache w' = (if deterministic spec \<noteq> Some False then (cache w)(key \<mapsto> out) else cache w)"
      using c w' by (simp add: cachePut_def emit_def)
  qed
qed


lemma execProcess_err:
  assumes "execProcess x spec key w = (Inl e, w')"
  shows "cache w' = cache w \<and>
         (\<exists>evs. events w' = events w @ Spawn (command spec) (argsOf spec) # evs \<and>
                 (\<forall>e \<in> set evs. isAuxEvent e))"
proof -
  let ?w1 = "emit (Spawn (command spec) (argsOf spec)) w"
  let ?p = "childOf x spec w"
  let ?fs = "case produces spec of None \<Rightarrow> []
             | Some pr \<Rightarrow> (case files pr of None \<Rightarrow> [] | Some fs \<Rightarrow> fs)"
  let ?d = "JObj [(''stdout'', JStr (trim (stdoutData ?p))), (''stderr'', JStr (trim (stderrData ?p))),
                  (''exitCode'', JNum 0)]"
  from assms consider
      (kill) "w' = emit (Kill (command spec)) ?w1"
    | (plain) "w' = ?w1"
    | (files) r where "verifyFiles x ?fs [] ?w1 = (r, w')"
    | (read) arts w2 r where "verifyFiles x ?fs [] ?w1 = (Inr arts, w2)"
        "readResult x spec ?d w2 = (r, w')"
    by (auto simp: execProcess_def Let_def split: exitWait.splits if_splits prod.splits sum.splits)
  then show ?thesis
  proof cases
    case kill
    then show ?thesis by (simp add: emit_def isAuxEvent_def)
  next
    case plain
    then show ?thesis by (simp add: emit_def)
  next
    case files
    from verifyFiles_frame[OF files] obtain e1 where
      c2: "cache w' = cache ?w1" and e2: "events w' = events ?w1 @ e1"
      and a1: "\<forall>e \<in> set e1. \<exists>p. e = FsAccess p" by blast
    have "events w' = events w @ Spawn (command spec) (argsOf spec) # e1"
      using e2 by (simp add: emit_def)
    moreover have "\<forall>e \<in> set e1. isAuxEvent e"
      using a1 by (auto simp: isAuxEvent_def)
    moreover have "cache w' = cache w" using c2 by (simp add: emit_def)
    ultimately show ?thesis by blast
  next
    case read
    from verifyFiles_frame[OF read(1)] obtain e1 where
      c2: "cache w2 = cache ?w1" and e2: "events w2 = events ?w1 @ e1"
      and a1: "\<forall>e \<in> set e1. \<exists>p. e = FsAccess p" by blast
    from readResult_frame[OF read(2)] obtain e2' where
      c3: "cache w' = cache w2" and e3: "events w' = events w2 @ e2'"
      and a2: "\<forall>e \<in> set e2'. \<exists>p. e = FsReadFile p" by blast
    have "events w' = events w @ Spawn (command spec) (argsOf spec) # (e1 @ e2')"
      using e2 e3 by (simp add: emit_def)
    moreover have "\<forall>e \<in> set (e1 @ e2'). isAuxEvent e"
      using a1 a2 by (auto simp: isAuxEvent_def)
    moreover have "cache w' = cache w" using c2 c3 by (simp add: emit_def)
    ultimately show ?thesis by blast
  qed
qed

lemma runExec_hit:
  "deterministic spec \<noteq> Some False \<Longrightarrow> cache w (execKey x spec) = Some hit \<Longrightarrow>
   runExec x spec w =
     (Inr (hit\<lparr>hash := Some (execKey x spec), cached := Some True\<rparr>),
      emit (CacheGet (execKey x spec)) w)"
  by (simp add: runExec_def cacheGet_def Let_def)

lemma runExec_miss:
  "deterministic spec \<noteq> Some False \<Longrightarrow> cache w (execKey x spec) = None \<Longrightarrow>
   runExec x spec w = execProcess x spec (execKey x spec) (emit (CacheGet (execKey x spec)) w)"
  by (simp add: runExec_def cacheGet_def Let_def)

lemma runExec_nocache:
  "deterministic spec = Some False \<Longrightarrow>
   runExec x spec w = execProcess x spec (execKey x spec) w"
  by (simp add: runExec_def Let_def)


lemma runTask_nocache:
  "deterministic spec \<noteq> Some True \<Longrightarrow>
   snd (runTask x ag spec w) = emit (AgentRun (agentName ag)) w"
  by (simp add: runTask_def Let_def split: sum.splits)


lemma runExec_hash:
  assumes "runExec x spec w = (Inr out, w')"
  shows "hash out = Some (execKey x spec)"
proof (cases "deterministic spec \<noteq> Some False \<and> cache w (execKey x spec) \<noteq> None")
  case True
  then obtain hit where "cache w (execKey x spec) = Some hit" by auto
  with True assms show ?thesis by (auto simp: runExec_hit)
next
  case False
  then consider "deterministic spec = Some False"
    | "deterministic spec \<noteq> Some False" "cache w (execKey x spec) = None" by auto
  then show ?thesis
  proof cases
    case 1
    with assms have "execProcess x spec (execKey x spec) w = (Inr out, w')"
      by (simp add: runExec_nocache)
    from execProcess_ok[OF this] show ?thesis by simp
  next
    case 2
    with assms have "execProcess x spec (execKey x spec) (emit (CacheGet (execKey x spec)) w)
                       = (Inr out, w')"
      by (simp add: runExec_miss)
    from execProcess_ok[OF this] show ?thesis by simp
  qed
qed

lemma runTask_hash:
  "runTask x ag spec w = (Inr out, w') \<Longrightarrow> hash out = Some (taskKey x ag spec)"
  by (auto simp: runTask_def cacheGet_def Let_def split: if_splits option.splits sum.splits)

lemma runMap_hash:
  "runMap x spec state w = (Inr out, w') \<Longrightarrow> hash out = None"
  by (auto simp: runMap_def Let_def split: sum.splits option.splits)


lemma extends_refl: "extends w w P"
  by (simp add: extends_def)

lemma extends_trans: "extends w w1 P \<Longrightarrow> extends w1 w2 P \<Longrightarrow> extends w w2 P"
  by (auto simp: extends_def)

lemma extends_mono: "extends w w' P \<Longrightarrow> (\<And>e. P e \<Longrightarrow> Q e) \<Longrightarrow> extends w w' Q"
  by (auto simp: extends_def list_all_iff)

lemma extends_emit: "P e \<Longrightarrow> extends w (emit e w) P"
  by (simp add: extends_def emit_def)

lemma extends_emit_after: "extends w w' P \<Longrightarrow> P e \<Longrightarrow> extends w (emit e w') P"
  by (auto simp: extends_def emit_def)

lemma extends_emit_before: "P e \<Longrightarrow> extends (emit e w) w' P \<Longrightarrow> extends w w' P"
  by (auto simp: extends_def emit_def)

lemma execProcess_extends:
  "extends w (snd (execProcess x spec key w)) (\<lambda>e. \<not> isStoreEvent e)"
proof (cases "execProcess x spec key w")
  case (Pair r w')
  have sp: "\<not> isStoreEvent (Spawn (command spec) (argsOf spec))"
    by (simp add: isStoreEvent_def)
  show ?thesis
  proof (cases r)
    case (Inl e)
    from execProcess_err[OF Pair[unfolded Inl]] obtain evs where
      "events w' = events w @ Spawn (command spec) (argsOf spec) # evs"
      "\<forall>e\<in>set evs. isAuxEvent e" by blast
    with sp aux_event_class show ?thesis
      by (auto simp: Pair extends_def list_all_iff)
  next
    case (Inr out)
    have cp: "\<not> isStoreEvent (CachePut key out)"
      by (simp add: isStoreEvent_def)
    from execProcess_ok[OF Pair[unfolded Inr]] obtain evs where
      "events w' = events w @ Spawn (command spec) (argsOf spec) # evs @
                   (if deterministic spec \<noteq> Some False then [CachePut key out] else [])"
      "\<forall>e\<in>set evs. isAuxEvent e" by blast
    with sp cp aux_event_class show ?thesis
      by (auto simp: Pair extends_def list_all_iff)
  qed
qed

lemma runExec_extends:
  "extends w (snd (runExec x spec w)) (\<lambda>e. \<not> isStoreEvent e)"
proof -
  have cg: "\<not> isStoreEvent (CacheGet (execKey x spec))"
    by (simp add: isStoreEvent_def)
  show ?thesis
  proof (cases "deterministic spec = Some False")
    case True
    then show ?thesis by (simp add: runExec_nocache execProcess_extends)
  next
    case False
    show ?thesis
    proof (cases "cache w (execKey x spec)")
      case None
      with False show ?thesis
        using extends_emit_before[OF cg execProcess_extends]
        by (simp add: runExec_miss)
    next
      case (Some hit)
      with False show ?thesis
        by (simp add: runExec_hit extends_emit cg)
    qed
  qed
qed

lemma runTask_extends:
  "extends w (snd (runTask x ag spec w)) (\<lambda>e. \<not> isStoreEvent e)"
  by (auto simp: runTask_def cacheGet_def cachePut_def Let_def extends_def emit_def
      isStoreEvent_def split: option.splits sum.splits)

lemma runMapItem_extends:
  "extends w (snd (runMapItem x spec state item w)) (\<lambda>e. \<not> isStoreEvent e)"
proof -
  have e: "\<And>b. snd (case runExec x b w of (Inl e, w') \<Rightarrow> (Inl e, w')
                      | (Inr itemOutput, w') \<Rightarrow> (Inr (result itemOutput), w'))
            = snd (runExec x b w)"
    by (simp split: prod.splits sum.splits)
  have t: "\<And>ag b. snd (case runTask x ag b w of (Inl e, w') \<Rightarrow> (Inl e, w')
                      | (Inr itemOutput, w') \<Rightarrow> (Inr (result itemOutput), w'))
            = snd (runTask x ag b w)"
    by (simp split: prod.splits sum.splits)
  show ?thesis
    unfolding runMapItem_def
    by (simp add: e t runExec_extends runTask_extends extends_refl
        split: sum.splits Body.splits option.splits)
qed

lemma settleNext_world:
  "settleNext task cs wq rn s = (rn', s') \<Longrightarrow>
   \<exists>i. schedWorld s' = snd (task i (schedWorld s))"
  by (auto simp: settleNext_def Let_def)

lemma drain_extends:
  assumes "\<And>i w. extends w (snd (task i w)) P"
  shows "extends (schedWorld s) (schedWorld (drain n task cs wq rn s)) P"
proof (induction n arbitrary: cs wq rn s)
  case 0
  then show ?case by (simp add: extends_refl)
next
  case (Suc n)
  show ?case
  proof (cases "rn = []")
    case True
    then show ?thesis by (simp add: extends_refl)
  next
    case False
    obtain rn' s' where st: "settleNext task cs wq rn s = (rn', s')"
      by (cases "settleNext task cs wq rn s")
    from settleNext_world[OF st] obtain i where
      "schedWorld s' = snd (task i (schedWorld s))" by blast
    then have "extends (schedWorld s) (schedWorld s') P"
      using assms[of "schedWorld s" i] by simp
    from extends_trans[OF this Suc.IH[of s' "tl cs" "tl wq" rn']]
    show ?thesis using False st by simp
  qed
qed

lemma runMap_extends:
  "extends w (snd (runMap x spec state w)) (\<lambda>e. \<not> isStoreEvent e)"
proof (cases "resolveItems x spec state")
  case (Inl e)
  then show ?thesis by (simp add: runMap_def extends_refl)
next
  case (Inr items)
  have "extends w (schedWorld (mapSchedule x spec state items w)) (\<lambda>e. \<not> isStoreEvent e)"
    unfolding mapSchedule_def promiseAllLimit_def
    using drain_extends[where P = "\<lambda>e. \<not> isStoreEvent e"
        and task = "\<lambda>i. runMapItem x spec state (items ! i)"
        and s = "\<lparr>slots = replicate (length items) None, rejected = None,
                  peak = min 5 (length items), schedWorld = w\<rparr>", OF runMapItem_extends]
    by simp
  then show ?thesis
    by (simp add: runMap_def Inr Let_def split: option.splits)
qed

lemma runReduce_extends:
  "extends w (snd (runReduce x spec state w)) (\<lambda>e. \<not> isStoreEvent e)"
  unfolding runReduce_def
  by (simp add: runExec_extends runTask_extends extends_refl
      split: sum.splits Body.splits option.splits)

lemma nodeBody_extends:
  "extends w (snd (nodeBody x node state w)) (\<lambda>e. \<not> isStoreEvent e)"
  unfolding nodeBody_def
  by (simp add: runExec_extends runTask_extends runMap_extends runReduce_extends extends_refl
      split: sum.splits NodeDefinition.splits option.splits)


section \<open>Facts about the graph loop\<close>

text \<open>What the router does to the world: it reports the skips, nothing else.\<close>

lemma routerLoop_world:
  "extends w (snd (snd (routerLoop cat state ns (ready, su, w))))
     (\<lambda>e. \<exists>n. e = SetNodeStatus (defId n) SKIPPED \<and> skipBranch cat state n)"
proof (induction ns arbitrary: ready su w)
  case Nil
  then show ?case by (cases cat) (simp add: extends_refl)
next
  case (Cons n ns)
  have "skipBranch cat state n \<Longrightarrow>
        extends w (emit (SetNodeStatus (defId n) SKIPPED) w)
          (\<lambda>e. \<exists>n. e = SetNodeStatus (defId n) SKIPPED \<and> skipBranch cat state n)"
    by (rule extends_emit) blast
  then show ?case
    unfolding routerLoop_step using Cons.IH extends_trans by auto
qed

lemma router_world:
  "extends w (snd (router workflow state w))
     (\<lambda>e. \<exists>n. e = SetNodeStatus (defId n) SKIPPED \<and>
              skipBranch (categorize (DAList.impl_of (statuses state)) ({}, {}, {})) state n)"
  by (simp add: router_result routerScan_def routerLoop_world)

lemma router_world_done:
  assumes "DAList.lookup (statuses state) k
             \<in> {Some SUCCESS, Some CACHED, Some FAILED, Some SKIPPED}"
  shows "extends w (snd (router workflow state w)) (\<lambda>e. \<not> touches k e)"
proof (rule extends_mono[OF router_world])
  fix e
  assume "\<exists>n. e = SetNodeStatus (defId n) SKIPPED \<and>
              skipBranch (categorize (DAList.impl_of (statuses state)) ({}, {}, {})) state n"
  then show "\<not> touches k e"
    using assms by (auto simp: touches_def skipBranch_def categorize_lookup)
qed

text \<open>What a handler does to the world: store events of its own node only.\<close>

lemma handler_world:
  "extends w (snd (createNodeHandler x node state w))
     (\<lambda>e. \<not> isStoreEvent e \<or> (\<exists>s. e = SetNodeStatus (defId node) s) \<or>
          (\<exists>out. e = SetNodeOutput (defId node) out) \<or> (\<exists>m. e = SetNodeError (defId node) m))"
  (is "extends w _ ?P")
proof (cases "nodeBody x node state (emit (SetNodeStatus (defId node) RUNNING) w)")
  case (Pair r w')
  have b: "extends w w' ?P"
  proof (rule extends_emit_before[of ?P "SetNodeStatus (defId node) RUNNING"])
    show "?P (SetNodeStatus (defId node) RUNNING)" by blast
    show "extends (emit (SetNodeStatus (defId node) RUNNING) w) w' ?P"
      using nodeBody_extends[of "emit (SetNodeStatus (defId node) RUNNING) w" x node state]
      by (auto simp: Pair intro: extends_mono)
  qed
  show ?thesis
  proof (cases r)
    case (Inl e)
    show ?thesis
      unfolding handler_Inl[OF Pair[unfolded Inl]] snd_conv
      by (intro extends_emit_after b) blast+
  next
    case (Inr out)
    show ?thesis
      unfolding handler_Inr[OF Pair[unfolded Inr]] snd_conv
      by (intro extends_emit_after b) blast+
  qed
qed

lemma handler_outputs:
  "DAList.lookup (outputs (applyUpdate state (fst (createNodeHandler x node state' w)))) k =
     DAList.lookup (outputs state) k \<or> k = defId node"
proof (cases "nodeBody x node state' (emit (SetNodeStatus (defId node) RUNNING) w)")
  case (Pair r w')
  show ?thesis
  proof (cases r)
    case (Inl e)
    then show ?thesis using Pair
      by (simp add: handler_Inl applyUpdate_def noUpdate_def)
  next
    case (Inr out)
    then show ?thesis using Pair
      by (simp add: handler_Inr applyUpdate_def noUpdate_def mergeRecord_lookup
          DAList.lookup_update)
  qed
qed

lemma tick_outputs: "outputs (tick workflow state w) = outputs state"
  by (simp add: tick_def router_result applyUpdate_def noUpdate_def)

text \<open>The two ways a round of the graph can go.\<close>

lemma graphStep_Inl:
  assumes "graphStep x workflow state w = Inl (r, w')"
  shows "w' = snd (router workflow state w) \<and>
         (r = Inr (tick workflow state w) \<or> (\<exists>e. r = Inl e))"
  using assms
  by (auto simp: graphStep_def Let_def tick_def
      split: prod.splits sum.splits target.splits option.splits)

lemma graphStep_Inr:
  assumes "graphStep x workflow state w = Inr (state', w')"
  shows "\<exists>node. node \<in> set (nodes workflow) \<and>
           DAList.lookup (statuses state) (defId node)
             \<notin> {Some SUCCESS, Some CACHED, Some FAILED, Some SKIPPED, Some RUNNING} \<and>
           state' = applyUpdate (tick workflow state w)
                      (fst (createNodeHandler x node (tick workflow state w)
                              (snd (router workflow state w)))) \<and>
           w' = snd (createNodeHandler x node (tick workflow state w)
                       (snd (router workflow state w)))"
proof -
  let ?cat = "categorize (DAList.impl_of (statuses state)) ({}, {}, {})"
  let ?st1 = "tick workflow state w"
  let ?w1 = "snd (router workflow state w)"
  from assms obtain n rest node where
    nx: "nextIds ?st1 = n # rest" and
    fd: "find (\<lambda>node. defId node = n) (nodes workflow) = Some node" and
    st': "state' = applyUpdate ?st1 (fst (createNodeHandler x node ?st1 ?w1))" and
    w': "w' = snd (createNodeHandler x node ?st1 ?w1)"
    by (auto simp: graphStep_def routerEdge_def Let_def tick_def
        split: prod.splits sum.splits target.splits list.splits option.splits if_splits)
  from fd have nid: "defId node = n" and nin: "node \<in> set (nodes workflow)"
    by (auto simp: find_Some_iff)
  from nx have "n \<in> set (fst (routerScan workflow state w))"
    by (simp add: tick_next)
  then obtain m where m: "m \<in> set (nodes workflow)" "defId m = n" "readyBranch ?cat state m"
    by (auto simp: routerScan_def routerLoop_ready)
  from m have "DAList.lookup (statuses state) n
                 \<notin> {Some SUCCESS, Some CACHED, Some FAILED, Some SKIPPED, Some RUNNING}"
    by (auto simp: readyBranch_def categorize_lookup)
  with nid nin st' w' show ?thesis by blast
qed


lemma handler_world_other:
  assumes "k \<noteq> defId node"
  shows "extends w (snd (createNodeHandler x node state w)) (\<lambda>e. \<not> touches k e)"
proof (rule extends_mono[OF handler_world])
  fix e
  assume "\<not> isStoreEvent e \<or> (\<exists>s. e = SetNodeStatus (defId node) s) \<or>
          (\<exists>out. e = SetNodeOutput (defId node) out) \<or> (\<exists>m. e = SetNodeError (defId node) m)"
  then show "\<not> touches k e"
    using assms by (cases e) (auto simp: touches_def isStoreEvent_def)
qed

text \<open>
  A node in a terminal status is left alone by the whole invocation: no event of the run
  store is about it, and the final state has its status and its output unchanged.
\<close>

lemma invoke_done:
  assumes "DAList.lookup (statuses state) k
             \<in> {Some SUCCESS, Some CACHED, Some FAILED, Some SKIPPED}"
  shows "extends w (snd (invoke x workflow state w)) (\<lambda>e. \<not> touches k e) \<and>
         (\<forall>final. fst (invoke x workflow state w) = Inr final \<longrightarrow>
            DAList.lookup (statuses final) k = DAList.lookup (statuses state) k \<and>
            DAList.lookup (outputs final) k = DAList.lookup (outputs state) k)"
  using assms
proof (induction x workflow state w rule: invoke.induct)
  case (1 x workflow state w)
  note fin = "1.prems"
  show ?case
  proof (cases "graphStep x workflow state w")
    case (Inl rw)
    obtain r w' where rw: "rw = (r, w')" by (cases rw)
    from graphStep_Inl[OF Inl[unfolded rw]] have
      w': "w' = snd (router workflow state w)" and
      r: "r = Inr (tick workflow state w) \<or> (\<exists>e. r = Inl e)" by auto
    have inv: "invoke x workflow state w = (r, w')"
      by (simp add: invoke.simps[of x workflow state w] Inl rw)
    show ?thesis
      using r router_world_done[OF fin, of w workflow] tick_keeps_terminal[OF fin, of workflow w]
      by (auto simp: inv w' tick_outputs)
  next
    case (Inr sw)
    obtain state' w' where sw: "sw = (state', w')" by (cases sw)
    from graphStep_Inr[OF Inr[unfolded sw]] obtain node where
      nin: "node \<in> set (nodes workflow)" and
      op: "DAList.lookup (statuses state) (defId node)
             \<notin> {Some SUCCESS, Some CACHED, Some FAILED, Some SKIPPED, Some RUNNING}" and
      st': "state' = applyUpdate (tick workflow state w)
                      (fst (createNodeHandler x node (tick workflow state w)
                              (snd (router workflow state w))))" and
      w': "w' = snd (createNodeHandler x node (tick workflow state w)
                       (snd (router workflow state w)))" by blast
    from op fin have ne: "k \<noteq> defId node" by auto
    have s1: "DAList.lookup (statuses (tick workflow state w)) k = DAList.lookup (statuses state) k"
      by (rule tick_keeps_terminal[OF fin])
    obtain s where "\<And>j. DAList.lookup (statuses state') j =
        (if j = defId node then Some s else DAList.lookup (statuses (tick workflow state w)) j)"
      using handler_statuses[of "tick workflow state w" x node "tick workflow state w"
          "snd (router workflow state w)"] unfolding st' by blast
    then have s2: "DAList.lookup (statuses state') k = DAList.lookup (statuses state) k"
      using ne s1 by simp
    have o2: "DAList.lookup (outputs state') k = DAList.lookup (outputs state) k"
      using handler_outputs[of "tick workflow state w" x node "tick workflow state w"
          "snd (router workflow state w)" k] ne
      by (simp add: st' tick_outputs)
    have e1: "extends w w' (\<lambda>e. \<not> touches k e)"
      unfolding w'
      by (rule extends_trans[OF router_world_done[OF fin] handler_world_other[OF ne]])
    have inv: "invoke x workflow state w = invoke x workflow state' w'"
      by (simp add: invoke.simps[of x workflow state w] Inr sw)
    from fin s2 have done': "DAList.lookup (statuses state') k
             \<in> {Some SUCCESS, Some CACHED, Some FAILED, Some SKIPPED}" by simp
    from "1.IH"[OF Inr sw[symmetric] done'] show ?thesis
      using e1 s2 o2 by (auto simp: inv intro: extends_trans)
  qed
qed


text \<open>
  One tick skips a pending node with a failed or skipped dependency, and the conditional
  edge reports a deadlock when nothing is ready, a node is pending and every status
  belongs to a node of the workflow.
\<close>

lemma tick_skips_blocked:
  assumes "node \<in> set (nodes workflow)"
    and "DAList.lookup (statuses state) (defId node) \<in> {None, Some PENDING}"
    and "list_ex (\<lambda>dep. DAList.lookup (statuses state) dep = Some FAILED \<or>
                        DAList.lookup (statuses state) dep = Some SKIPPED)
           (case defDeps node of None \<Rightarrow> [] | Some d \<Rightarrow> d)"
  shows "DAList.lookup (statuses (tick workflow state w)) (defId node) = Some SKIPPED"
proof -
  have "skipBranch (categorize (DAList.impl_of (statuses state)) ({}, {}, {})) state node"
    using assms(2,3) by (auto simp: skipBranch_def categorize_lookup list_ex_iff)
  then have "DAList.lookup (fst (snd (routerScan workflow state w))) (defId node) = Some SKIPPED"
    using assms(1) by (auto simp: routerScan_def routerLoop_updates)
  then show ?thesis by (simp add: tick_statuses mergeRecord_lookup)
qed


lemma routerEdge_deadlock:
  assumes keys: "fst ` set (DAList.impl_of (statuses state)) \<subseteq> defId ` set (nodes workflow)"
    and empty: "nextIds state = []"
    and n: "n \<in> set (nodes workflow)"
    and pend: "DAList.lookup (statuses state) (defId n) \<in> {None, Some PENDING}"
  shows "routerEdge workflow state =
           Inl (Deadlock (filter (\<lambda>i. DAList.lookup (statuses state) i = None \<or>
                                        DAList.lookup (statuses state) i = Some PENDING)
                            (map defId (nodes workflow))))"
proof -
  let ?es = "DAList.impl_of (statuses state)"
  let ?P = "filter (\<lambda>(_, status). status \<noteq> PENDING \<and> status \<noteq> RUNNING) ?es"
  have d: "distinct (map fst ?P)"
    by (rule distinct_map_fst_filter) simp
  have notin: "defId n \<notin> fst ` set ?P"
  proof
    assume "defId n \<in> fst ` set ?P"
    then obtain s where "(defId n, s) \<in> set ?es" "s \<noteq> PENDING" by auto
    then have "DAList.lookup (statuses state) (defId n) = Some s" "s \<noteq> PENDING"
      by (simp_all add: DAList.lookup.rep_eq)
    with pend show False by auto
  qed
  have "fst ` set ?P \<subseteq> fst ` set ?es" by auto
  with keys have "fst ` set ?P \<subseteq> defId ` set (nodes workflow)" by blast
  with notin have sub: "fst ` set ?P \<subseteq> defId ` set (nodes workflow) - {defId n}"
    by blast
  have "length ?P = card (fst ` set ?P)"
    using distinct_card[OF d] by simp
  also have "\<dots> \<le> card (defId ` set (nodes workflow) - {defId n})"
    by (rule card_mono[OF _ sub]) simp
  also have "\<dots> < card (defId ` set (nodes workflow))"
    using n by (intro card_Diff1_less) auto
  also have "\<dots> \<le> length (nodes workflow)"
    using card_image_le[of "set (nodes workflow)" defId] card_length[of "nodes workflow"]
    by simp
  finally have ne: "length ?P \<noteq> length (map defId (nodes workflow))" by simp
  have "defId n \<in> set (filter (\<lambda>i. DAList.lookup (statuses state) i = None \<or>
                                        DAList.lookup (statuses state) i = Some PENDING)
                            (map defId (nodes workflow)))"
    using n pend by auto
  then have "filter (\<lambda>i. DAList.lookup (statuses state) i = None \<or>
                                        DAList.lookup (statuses state) i = Some PENDING)
                            (map defId (nodes workflow)) \<noteq> []"
    by (metis empty_iff list.set(1))
  with ne empty show ?thesis
    by (simp add: routerEdge_def Let_def)
qed


section \<open>Facts about resuming\<close>

lemma extends_drop:
  "extends w w' P \<Longrightarrow> \<forall>e \<in> set (drop (length (events w)) (events w')). P e"
  by (auto simp: extends_def list_all_iff)

lemma resetLoop_updates:
  "DAList.lookup (fst (resetLoop es (su, w))) k =
     (if (k, FAILED) \<in> set es \<or> (k, SKIPPED) \<in> set es then Some PENDING
      else DAList.lookup su k)"
proof (induction es arbitrary: su w)
  case Nil
  then show ?case by simp
next
  case (Cons e es)
  obtain i s where e: "e = (i, s)" by (cases e)
  show ?case unfolding e
    by (cases s) (auto simp: Cons.IH DAList.lookup_update)
qed

lemma resumeState_fst:
  "fst (resumeState checkpoint w) =
     checkpoint\<lparr>statuses := mergeRecord (statuses checkpoint)
                    (fst (resetLoop (DAList.impl_of (statuses checkpoint)) (DAList.empty, w))),
                 failed := None\<rparr>"
  by (simp add: resumeState_def split: prod.splits)

lemma resumeState_statuses:
  "DAList.lookup (statuses (fst (resumeState checkpoint w))) k =
     (if DAList.lookup (statuses checkpoint) k \<in> {Some FAILED, Some SKIPPED} then Some PENDING
      else DAList.lookup (statuses checkpoint) k)"
proof -
  have m: "\<And>s. ((k, s) \<in> set (DAList.impl_of (statuses checkpoint))) =
                (DAList.lookup (statuses checkpoint) k = Some s)"
    by (simp add: DAList.lookup.rep_eq)
  show ?thesis
    by (simp add: resumeState_fst mergeRecord_lookup resetLoop_updates m)
qed

lemma resumeState_fields:
  "failed (fst (resumeState checkpoint w)) = None"
  "outputs (fst (resumeState checkpoint w)) = outputs checkpoint"
  "vars (fst (resumeState checkpoint w)) = vars checkpoint"
  by (simp_all add: resumeState_def split: prod.splits)


section \<open>Facts about the run store\<close>

lemma generate_nonempty: "fst (generateThreadId s) \<noteq> []"
  by (simp add: generateThreadId_def)

lemma createRun_holds:
  "holdsId dir (fst (generateThreadId s)) (tl (randoms s)) (createRun dir name s)"
  by (simp add: holdsId_def createRun_def newRunStore_def generateThreadId_def init_def
      save_def getThreadId_def load_def)

lemma loadForResume_keeps:
  assumes "load dir s = Some m" and "threadId m \<noteq> []"
  shows "loadForResume dir s = (Some \<lparr>runDir = dir, metadata = m\<rparr>, s)"
  using assms by (simp add: loadForResume_def newRunStore_def)

lemma applyOp_holds:
  assumes "holdsId dir t rs p" and "t \<noteq> []"
  shows "holdsId dir t rs (applyOp op p)"
proof -
  obtain store s where p: "p = (store, s)" by (cases p)
  from assms(1) have d: "runDir store = dir" and g: "threadId (metadata store) = t"
    and r: "randoms s = rs"
    by (simp_all add: holdsId_def p getThreadId_def)
  from assms(1) obtain m where m: "load dir s = Some m" "threadId m = t"
    by (auto simp: holdsId_def p)
  show ?thesis
  proof (cases op)
    case (OpStatus nid status)
    then show ?thesis using d g r
      by (simp add: p holdsId_def setNodeStatus_def save_def getThreadId_def load_def Let_def)
  next
    case (OpOutput nid out)
    then show ?thesis using d g r
      by (simp add: p holdsId_def setNodeOutput_def save_def getThreadId_def load_def Let_def)
  next
    case (OpError nid err)
    then show ?thesis using d g r
      by (simp add: p holdsId_def setNodeError_def save_def getThreadId_def load_def Let_def)
  next
    case (OpComplete status)
    then show ?thesis using d g r
      by (simp add: p holdsId_def complete_def save_def getThreadId_def load_def Let_def)
  next
    case (OpWait ms)
    then show ?thesis using assms(1)
      by (simp add: p holdsId_def load_def)
  next
    case OpResume
    from m assms(2) have "loadForResume dir s = (Some \<lparr>runDir = dir, metadata = m\<rparr>, s)"
      by (intro loadForResume_keeps) simp_all
    then show ?thesis using OpResume d m r
      by (simp add: p holdsId_def getThreadId_def)
  qed
qed

lemma fold_applyOp_holds:
  "holdsId dir t rs p \<Longrightarrow> t \<noteq> [] \<Longrightarrow> holdsId dir t rs (fold applyOp ops p)"
  by (induction ops arbitrary: p) (simp_all add: applyOp_holds)


section \<open>Facts about the fan-out scheduler\<close>
















section \<open>Evaluation of the concrete instances\<close>

lemmas alist_eval = DAList.update.rep_eq DAList.empty.rep_eq DAList.lookup.rep_eq

lemma demoExecNode_sel:
  "nodeId (demoExecNode i ds cmd) = i" "deps (demoExecNode i ds cmd) = Some ds"
  "deterministic (demoExecNode i ds cmd) = None" "timeout (demoExecNode i ds cmd) = None"
  "command (demoExecNode i ds cmd) = cmd" "args (demoExecNode i ds cmd) = None"
  "cwd (demoExecNode i ds cmd) = None" "env (demoExecNode i ds cmd) = None"
  "produces (demoExecNode i ds cmd) = None"
  by (simp_all add: demoExecNode_def)

lemma demoPlatform_sel:
  "sha256hex demoPlatform s = s"
  "jsonStringify demoPlatform (ExecPayload c as d e pr) = ''exec '' @ c @ '' '' @ joinWith '' '' as"
  "jsonStringify demoPlatform (TaskPayload a p i e) = ''task '' @ a @ '' '' @ p"
  "processCwd demoPlatform = ''/work''"
  "spawnProc demoPlatform h cmd as d ev =
     \<lparr>spawnError = None, closeAfter = 10, exitCode = Some (if cmd = ''false'' then 1 else 0),
      stdoutData = joinWith '' '' as @ [CHR 0x0A],
      stderrData = (if cmd = ''false'' then '' boom '' else [])\<rparr>"
  "agentRegistry demoPlatform n = (if n = ''echo-agent'' then Some demoAgent else None)"
  "renderNode demoPlatform vs os nd = Inr nd"
  "renderOver demoPlatform vs os v = Inr v"
  "completionOrder demoPlatform h = [1, 0]"
  by (simp_all add: demoPlatform_def)

lemma demo_execKey: "execKey demoPlatform (demoExecNode i ds cmd) = ''exec '' @ cmd @ '' ''"
  by (simp add: execKey_def hashInputs_def demoPlatform_sel demoExecNode_sel)

lemma demo_child:
  "childOf demoPlatform (demoExecNode i ds cmd) w =
     \<lparr>spawnError = None, closeAfter = 10, exitCode = Some (if cmd = ''false'' then 1 else 0),
      stdoutData = [CHR 0x0A], stderrData = (if cmd = ''false'' then '' boom '' else [])\<rparr>"
  by (simp add: childOf_def argsOf_def demoPlatform_sel demoExecNode_sel)

lemma trim_demo: "trim [CHR 0x0A] = []" "trim [] = []" "trim '' boom '' = ''boom''"
  by (simp_all add: trim_def isSpace_def)

text \<open>What a command node of the demo platform does on an empty cache.\<close>

lemma demo_execProcess_ok:
  "cmd \<noteq> ''false'' \<Longrightarrow>
   execProcess demoPlatform (demoExecNode i ds cmd) key w =
     (Inr \<lparr>result = JObj [(''stdout'', JStr []), (''stderr'', JStr []), (''exitCode'', JNum 0)],
           artifacts = [], logs = None, hash = Some key, cached = Some False\<rparr>,
      cachePut key
        \<lparr>result = JObj [(''stdout'', JStr []), (''stderr'', JStr []), (''exitCode'', JNum 0)],
         artifacts = [], logs = None, hash = Some key, cached = Some False\<rparr>
        (emit (Spawn cmd []) w))"
  by (simp add: execProcess_def demo_child argsOf_def awaitExit_def Let_def readResult_def
      trim_demo demoExecNode_sel)

lemma demo_execProcess_false:
  "execProcess demoPlatform (demoExecNode i ds ''false'') key w =
     (Inl (ExecFailed 1 ''false'' [] ''boom''), emit (Spawn ''false'' []) w)"
  by (simp add: execProcess_def demo_child argsOf_def awaitExit_def Let_def
      trim_demo demoExecNode_sel)



lemmas graph_eval = graphStep_def router_def routerScan_def routerEdge_def applyUpdate_def
  noUpdate_def mergeRecord_def createNodeHandler_def nodeBody_def runExec_def cacheGet_def
  cachePut_def emit_def Let_def

lemmas demo_eval = alist_eval stateOf_def createInitialState_def emptyWorld_def
  demoExec_def demoExecNode_sel demoPlatform_sel demo_execKey
  demo_execProcess_false demo_execProcess_ok


lemma demo_createRun:
  "createRun ''r1'' ''chain'' demoSys =
     (\<lparr>runDir = ''r1'',
       metadata = \<lparr>workflowName = ''chain'', threadId = ''run-7-abc123xyz'',
                   checkpointDbPath = ''r1/checkpoints.db'', startTime = 7, endTime = None,
                   runStatus = Running, metaNodes = DAList.empty\<rparr>\<rparr>,
      \<lparr>runJson = [''r1'' \<mapsto> \<lparr>workflowName = ''chain'', threadId = ''run-7-abc123xyz'',
                   checkpointDbPath = ''r1/checkpoints.db'', startTime = 7, endTime = None,
                   runStatus = Running, metaNodes = DAList.empty\<rparr>],
       clock = 7, randoms = [''zzz'']\<rparr>)"
  by (simp add: createRun_def newRunStore_def generateThreadId_def init_def save_def
      demoSys_def showNat.simps[of 7])










section \<open>The ready frontier\<close>

text \<open>
  Claim C1. On every tick of the router, a node whose status is PENDING is in the ready
  frontier if and only if each of its declared dependencies has status SUCCESS or CACHED;
  a node that is RUNNING or in a terminal status (SUCCESS, CACHED, FAILED, SKIPPED) is
  never put into the frontier, gets no status update from the router, and keeps its
  status. Node ids are unique, as the data model has them.
\<close>

theorem router_frontier:
  assumes "distinct (map defId (nodes workflow))"
  shows "(\<forall>node \<in> set (nodes workflow).
            DAList.lookup (statuses state) (defId node) = Some PENDING \<longrightarrow>
            (defId node \<in> set (nextIds (tick workflow state w)) \<longleftrightarrow>
             list_all (\<lambda>dep. DAList.lookup (statuses state) dep = Some SUCCESS \<or>
                              DAList.lookup (statuses state) dep = Some CACHED)
               (case defDeps node of None \<Rightarrow> [] | Some d \<Rightarrow> d)))
       \<and> (\<forall>nid. DAList.lookup (statuses state) nid
                  \<in> {Some RUNNING, Some SUCCESS, Some CACHED, Some FAILED, Some SKIPPED} \<longrightarrow>
            nid \<notin> set (nextIds (tick workflow state w)) \<and>
            DAList.lookup (fst (snd (routerScan workflow state w))) nid = None \<and>
            DAList.lookup (statuses (tick workflow state w)) nid
              = DAList.lookup (statuses state) nid)"
proof (intro conjI ballI allI impI)
  let ?cat = "categorize (DAList.impl_of (statuses state)) ({}, {}, {})"
  fix node
  assume n: "node \<in> set (nodes workflow)"
    and p: "DAList.lookup (statuses state) (defId node) = Some PENDING"
  have uniq: "\<And>m. m \<in> set (nodes workflow) \<Longrightarrow> defId m = defId node \<Longrightarrow> m = node"
    using assms n by (meson distinct_map inj_onD)
  have "defId node \<in> set (nextIds (tick workflow state w)) \<longleftrightarrow> readyBranch ?cat state node"
    using uniq n by (auto simp: tick_next routerScan_def routerLoop_ready)
  also have "\<dots> \<longleftrightarrow> list_all (\<lambda>dep. DAList.lookup (statuses state) dep = Some SUCCESS \<or>
                              DAList.lookup (statuses state) dep = Some CACHED)
               (case defDeps node of None \<Rightarrow> [] | Some d \<Rightarrow> d)"
    using p by (auto simp: readyBranch_def categorize_lookup list_all_iff list_ex_iff)
  finally show "defId node \<in> set (nextIds (tick workflow state w)) \<longleftrightarrow>
             list_all (\<lambda>dep. DAList.lookup (statuses state) dep = Some SUCCESS \<or>
                              DAList.lookup (statuses state) dep = Some CACHED)
               (case defDeps node of None \<Rightarrow> [] | Some d \<Rightarrow> d)" .
next
  fix nid
  assume t: "DAList.lookup (statuses state) nid
                  \<in> {Some RUNNING, Some SUCCESS, Some CACHED, Some FAILED, Some SKIPPED}"
  let ?cat = "categorize (DAList.impl_of (statuses state)) ({}, {}, {})"
  have nr: "\<And>m. defId m = nid \<Longrightarrow> \<not> readyBranch ?cat state m"
    using t by (auto simp: readyBranch_def categorize_lookup)
  have ns: "\<And>m. defId m = nid \<Longrightarrow> \<not> skipBranch ?cat state m"
    using t by (auto simp: skipBranch_def categorize_lookup)
  show "nid \<notin> set (nextIds (tick workflow state w))"
    using nr by (auto simp: tick_next routerScan_def routerLoop_ready)
  show u: "DAList.lookup (fst (snd (routerScan workflow state w))) nid = None"
    using ns by (auto simp: routerScan_def routerLoop_updates)
  show "DAList.lookup (statuses (tick workflow state w)) nid
              = DAList.lookup (statuses state) nid"
    by (simp add: tick_statuses mergeRecord_lookup u)
qed

theorem router_frontier_witness:
  "distinct (map defId (nodes chainWorkflow)) \<and>
   ''B'' \<in> set (nextIds (tick chainWorkflow
       (stateOf [(''A'', SUCCESS), (''B'', PENDING), (''C'', PENDING)]) emptyWorld)) \<and>
   ''C'' \<notin> set (nextIds (tick chainWorkflow
       (stateOf [(''A'', SUCCESS), (''B'', PENDING), (''C'', PENDING)]) emptyWorld)) \<and>
   ''A'' \<notin> set (nextIds (tick chainWorkflow
       (stateOf [(''A'', SUCCESS), (''B'', PENDING), (''C'', PENDING)]) emptyWorld))"
  using router_frontier[of chainWorkflow
      "stateOf [(''A'', SUCCESS), (''B'', PENDING), (''C'', PENDING)]" emptyWorld]
  by (simp add: chainWorkflow_def demoExec_def demoExecNode_def stateOf_def
      createInitialState_def alist_eval)

section \<open>Cache hits\<close>




section \<open>The default of the determinism flag\<close>

text \<open>
  Claim C10. A command node whose \<open>deterministic\<close> flag is unset (or true) is treated as
  deterministic: \<open>runExec\<close> looks the key up before anything else, returns a hit without
  spawning, and on a miss writes the fresh output back under the key as its last act.
  Only the flag \<open>false\<close> disables this: then no event of the run touches the cache. A
  task node whose flag is unset (or false) never reads or writes the cache: all that
  \<open>runTask\<close> does to the world is to run the agent.
\<close>

theorem determinism_default:
  "(deterministic spec \<noteq> Some False \<longrightarrow>
      (\<forall>hit. cache w (execKey x spec) = Some hit \<longrightarrow>
         runExec x spec w =
           (Inr (hit\<lparr>hash := Some (execKey x spec), cached := Some True\<rparr>),
            emit (CacheGet (execKey x spec)) w)) \<and>
      (cache w (execKey x spec) = None \<longrightarrow>
         runExec x spec w =
           execProcess x spec (execKey x spec) (emit (CacheGet (execKey x spec)) w) \<and>
         (\<forall>out w'. runExec x spec w = (Inr out, w') \<longrightarrow>
            cache w' = (cache w)(execKey x spec \<mapsto> out) \<and>
            last (events w') = CachePut (execKey x spec) out)))
   \<and> (deterministic spec = Some False \<longrightarrow>
        runExec x spec w = execProcess x spec (execKey x spec) w \<and>
        cache (snd (runExec x spec w)) = cache w \<and>
        (\<forall>e \<in> set (drop (length (events w)) (events (snd (runExec x spec w)))).
           \<not> isCacheEvent e))
   \<and> (deterministic tspec \<noteq> Some True \<longrightarrow>
        snd (runTask x ag tspec w) = emit (AgentRun (agentName ag)) w \<and>
        cache (snd (runTask x ag tspec w)) = cache w \<and>
        (\<forall>e \<in> set (drop (length (events w)) (events (snd (runTask x ag tspec w)))).
           \<not> isCacheEvent e))"
proof (intro conjI impI allI)
  fix hit
  assume "deterministic spec \<noteq> Some False" "cache w (execKey x spec) = Some hit"
  then show "runExec x spec w =
           (Inr (hit\<lparr>hash := Some (execKey x spec), cached := Some True\<rparr>),
            emit (CacheGet (execKey x spec)) w)"
    by (rule runExec_hit)
next
  assume d: "deterministic spec \<noteq> Some False" and m: "cache w (execKey x spec) = None"
  show eq: "runExec x spec w =
           execProcess x spec (execKey x spec) (emit (CacheGet (execKey x spec)) w)"
    using d m by (rule runExec_miss)
  fix out w'
  assume "runExec x spec w = (Inr out, w')"
  then have ok: "execProcess x spec (execKey x spec) (emit (CacheGet (execKey x spec)) w)
                   = (Inr out, w')"
    using eq by simp
  from execProcess_ok[OF ok] d
  show "cache w' = (cache w)(execKey x spec \<mapsto> out)"
    by (simp add: emit_def)
  from execProcess_ok[OF ok] d
  show "last (events w') = CachePut (execKey x spec) out"
    by auto
next
  assume d: "deterministic spec = Some False"
  show eq: "runExec x spec w = execProcess x spec (execKey x spec) w"
    using d by (rule runExec_nocache)
  obtain r w' where rw: "execProcess x spec (execKey x spec) w = (r, w')"
    by (cases "execProcess x spec (execKey x spec) w")
  have "cache w' = cache w \<and>
        (\<forall>e \<in> set (drop (length (events w)) (events w')). \<not> isCacheEvent e)"
  proof -
    have sp: "\<not> isCacheEvent (Spawn (command spec) (argsOf spec))"
      by (simp add: isCacheEvent_def)
    have "\<exists>evs. cache w' = cache w \<and>
            events w' = events w @ Spawn (command spec) (argsOf spec) # evs \<and>
            (\<forall>e \<in> set evs. isAuxEvent e)"
    proof (cases r)
      case (Inl e)
      from execProcess_err[OF rw[unfolded Inl]] show ?thesis by blast
    next
      case (Inr out)
      from execProcess_ok[OF rw[unfolded Inr]] d show ?thesis by auto
    qed
    then obtain evs where c: "cache w' = cache w"
      and ev: "events w' = events w @ Spawn (command spec) (argsOf spec) # evs"
      and ax: "\<forall>e \<in> set evs. isAuxEvent e" by blast
    from ax have "\<forall>e \<in> set evs. \<not> isCacheEvent e"
      using aux_event_class by blast
    with sp c ev show ?thesis by simp
  qed
  then show "cache (snd (runExec x spec w)) = cache w"
    and "\<forall>e \<in> set (drop (length (events w)) (events (snd (runExec x spec w)))).
           \<not> isCacheEvent e"
    using eq rw by simp_all
next
  assume d: "deterministic tspec \<noteq> Some True"
  then show t: "snd (runTask x ag tspec w) = emit (AgentRun (agentName ag)) w"
    by (rule runTask_nocache)
  show "cache (snd (runTask x ag tspec w)) = cache w"
    by (simp add: t emit_def)
  show "\<forall>e \<in> set (drop (length (events w)) (events (snd (runTask x ag tspec w)))).
           \<not> isCacheEvent e"
    by (simp add: t emit_def isCacheEvent_def)
qed

theorem determinism_default_witness:
  "deterministic (demoExecNode ''n'' [] ''echo'') \<noteq> Some False \<and>
   cache emptyWorld (execKey demoPlatform (demoExecNode ''n'' [] ''echo'')) = None \<and>
   deterministic demoTaskNode \<noteq> Some True \<and>
   runExec demoPlatform (demoExecNode ''n'' [] ''echo'') emptyWorld =
     execProcess demoPlatform (demoExecNode ''n'' [] ''echo'') ''exec echo ''
       (emit (CacheGet ''exec echo '') emptyWorld) \<and>
   snd (runTask demoPlatform demoAgent demoTaskNode emptyWorld) =
     emit (AgentRun ''echo-agent'') emptyWorld"
proof -
  have d: "deterministic (demoExecNode ''n'' [] ''echo'') \<noteq> Some False"
    by (simp add: demoExecNode_sel)
  have c: "cache emptyWorld (execKey demoPlatform (demoExecNode ''n'' [] ''echo'')) = None"
    by (simp add: emptyWorld_def)
  have t: "deterministic demoTaskNode \<noteq> Some True"
    by (simp add: demoTaskNode_def)
  have n: "agentName demoAgent = ''echo-agent''"
    by (simp add: demoAgent_def)
  show ?thesis
    using determinism_default[of "demoExecNode ''n'' [] ''echo''" emptyWorld demoPlatform
        demoTaskNode demoAgent] d c t
    by (simp add: demo_execKey n)
qed

section \<open>The cache key of an output\<close>

text \<open>
  The output of a completed command node carries the cache key even when the node is
  declared non-deterministic: the node \<open>nonDetNode\<close> has the flag \<open>false\<close>, runs
  \<open>echo\<close>, and its output has the hash \<open>exec echo \<close>.
\<close>

theorem hash_not_iff_deterministic:
  "deterministic nonDetNode = Some False \<and>
   fst (runExec demoPlatform nonDetNode emptyWorld) =
     Inr \<lparr>result = JObj [(''stdout'', JStr []), (''stderr'', JStr []), (''exitCode'', JNum 0)],
          artifacts = [], logs = None, hash = Some ''exec echo '', cached = Some False\<rparr> \<and>
   hash \<lparr>result = JObj [(''stdout'', JStr []), (''stderr'', JStr []), (''exitCode'', JNum 0)],
         artifacts = [], logs = None, hash = Some ''exec echo '', cached = Some False\<rparr> \<noteq> None"
  by (simp add: nonDetNode_def runExec_def execKey_def hashInputs_def execProcess_def childOf_def
      argsOf_def awaitExit_def Let_def readResult_def trim_def isSpace_def emit_def
      demoPlatform_def demoExecNode_def emptyWorld_def)


text \<open>
  Claim C7, as amended. The output of every completed command node and of every
  completed task node carries the cache key, whatever the determinism flag; so does the
  output of a fan-in node, which is the output of its command or task body. The output
  of a completed fan-out node carries none, whatever its flag.
\<close>

theorem output_hash:
  "(runExec x spec w = (Inr out, w') \<longrightarrow> hash out = Some (execKey x spec))
   \<and> (runTask x ag tspec w = (Inr out, w') \<longrightarrow> hash out = Some (taskKey x ag tspec))
   \<and> (runReduce x rspec state w = (Inr out, w') \<longrightarrow> hash out \<noteq> None)
   \<and> (runMap x mspec state w = (Inr out, w') \<longrightarrow> hash out = None)"
proof (intro conjI impI)
  assume "runReduce x rspec state w = (Inr out, w')"
  then show "hash out \<noteq> None"
    by (auto simp: runReduce_def split: sum.splits Body.splits option.splits
        dest: runExec_hash runTask_hash)
qed (auto dest: runExec_hash runTask_hash runMap_hash)


theorem output_hash_witness:
  "runExec demoPlatform nonDetNode emptyWorld =
     (Inr echoOut, emit (Spawn ''echo'' []) emptyWorld) \<and>
   hash echoOut = Some (execKey demoPlatform nonDetNode)"
proof -
  have r: "runExec demoPlatform nonDetNode emptyWorld =
     (Inr echoOut, emit (Spawn ''echo'' []) emptyWorld)"
    by (simp add: nonDetNode_def runExec_def execKey_def hashInputs_def execProcess_def
        childOf_def argsOf_def awaitExit_def Let_def readResult_def trim_def isSpace_def
        emit_def demoPlatform_def demoExecNode_def emptyWorld_def echoOut_def)
  show ?thesis
    using output_hash[of demoPlatform nonDetNode emptyWorld echoOut
        "emit (Spawn ''echo'' []) emptyWorld"] r
    by simp
qed

section \<open>Exit codes and timeouts of command nodes\<close>




section \<open>Resuming from a checkpoint\<close>

text \<open>
  Claim C2. On resume from a checkpoint, every node whose checkpointed status is FAILED
  or SKIPPED starts as PENDING; every node whose status is SUCCESS or CACHED keeps its
  status and is never executed again: the invocation that follows emits no run-store
  event about it (in particular it is never set RUNNING), and its status and output in
  the final state are the checkpointed ones; the failure record of the state handed to
  the graph is empty; and this state is what \<open>run\<close> invokes the graph with.
\<close>

theorem resume_resets:
  "(\<forall>k. DAList.lookup (statuses checkpoint) k \<in> {Some FAILED, Some SKIPPED} \<longrightarrow>
        DAList.lookup (statuses (fst (resumeState checkpoint w))) k = Some PENDING)
   \<and> (\<forall>k. DAList.lookup (statuses checkpoint) k \<in> {Some SUCCESS, Some CACHED} \<longrightarrow>
        DAList.lookup (statuses (fst (resumeState checkpoint w))) k
          = DAList.lookup (statuses checkpoint) k \<and>
        (\<forall>e \<in> set (drop (length (events (snd (resumeState checkpoint w))))
                     (events (snd (invoke x workflow (fst (resumeState checkpoint w))
                                     (snd (resumeState checkpoint w)))))).
           \<not> touches k e \<and> e \<noteq> SetNodeStatus k RUNNING) \<and>
        (\<forall>final. fst (invoke x workflow (fst (resumeState checkpoint w))
                         (snd (resumeState checkpoint w))) = Inr final \<longrightarrow>
           DAList.lookup (statuses final) k = DAList.lookup (statuses checkpoint) k \<and>
           DAList.lookup (outputs final) k = DAList.lookup (outputs checkpoint) k))
   \<and> failed (fst (resumeState checkpoint w)) = None
   \<and> (tid \<noteq> [] \<longrightarrow>
        run x workflow (Some tid) True (Some checkpoint) w =
          finishRun x workflow (Some (fst (resumeState checkpoint w)))
            (snd (resumeState checkpoint w)))"
proof -
  have reset: "\<forall>k. DAList.lookup (statuses checkpoint) k \<in> {Some FAILED, Some SKIPPED} \<longrightarrow>
        DAList.lookup (statuses (fst (resumeState checkpoint w))) k = Some PENDING"
    by (simp add: resumeState_statuses)
  have kept: "\<forall>k. DAList.lookup (statuses checkpoint) k \<in> {Some SUCCESS, Some CACHED} \<longrightarrow>
        DAList.lookup (statuses (fst (resumeState checkpoint w))) k
          = DAList.lookup (statuses checkpoint) k \<and>
        (\<forall>e \<in> set (drop (length (events (snd (resumeState checkpoint w))))
                     (events (snd (invoke x workflow (fst (resumeState checkpoint w))
                                     (snd (resumeState checkpoint w)))))).
           \<not> touches k e \<and> e \<noteq> SetNodeStatus k RUNNING) \<and>
        (\<forall>final. fst (invoke x workflow (fst (resumeState checkpoint w))
                         (snd (resumeState checkpoint w))) = Inr final \<longrightarrow>
           DAList.lookup (statuses final) k = DAList.lookup (statuses checkpoint) k \<and>
           DAList.lookup (outputs final) k = DAList.lookup (outputs checkpoint) k)"
  proof (intro allI impI)
    fix k
    assume c: "DAList.lookup (statuses checkpoint) k \<in> {Some SUCCESS, Some CACHED}"
    then have keep: "DAList.lookup (statuses (fst (resumeState checkpoint w))) k
          = DAList.lookup (statuses checkpoint) k"
      by (auto simp: resumeState_statuses)
    with c have t: "DAList.lookup (statuses (fst (resumeState checkpoint w))) k
                    \<in> {Some SUCCESS, Some CACHED, Some FAILED, Some SKIPPED}" by auto
    note inv = invoke_done[OF t, of "snd (resumeState checkpoint w)" x workflow]
    have "extends (snd (resumeState checkpoint w))
          (snd (invoke x workflow (fst (resumeState checkpoint w)) (snd (resumeState checkpoint w))))
          (\<lambda>e. \<not> touches k e \<and> e \<noteq> SetNodeStatus k RUNNING)"
      by (rule extends_mono[OF conjunct1[OF inv]]) (auto simp: touches_def)
    from extends_drop[OF this]
    have ev: "\<forall>e \<in> set (drop (length (events (snd (resumeState checkpoint w))))
                     (events (snd (invoke x workflow (fst (resumeState checkpoint w))
                                     (snd (resumeState checkpoint w)))))).
           \<not> touches k e \<and> e \<noteq> SetNodeStatus k RUNNING" .
    have fin: "\<forall>final. fst (invoke x workflow (fst (resumeState checkpoint w))
                         (snd (resumeState checkpoint w))) = Inr final \<longrightarrow>
           DAList.lookup (statuses final) k = DAList.lookup (statuses checkpoint) k \<and>
           DAList.lookup (outputs final) k = DAList.lookup (outputs checkpoint) k"
      using conjunct2[OF inv] keep by (simp add: resumeState_fields)
    from keep ev fin
    show "DAList.lookup (statuses (fst (resumeState checkpoint w))) k
          = DAList.lookup (statuses checkpoint) k \<and>
        (\<forall>e \<in> set (drop (length (events (snd (resumeState checkpoint w))))
                     (events (snd (invoke x workflow (fst (resumeState checkpoint w))
                                     (snd (resumeState checkpoint w)))))).
           \<not> touches k e \<and> e \<noteq> SetNodeStatus k RUNNING) \<and>
        (\<forall>final. fst (invoke x workflow (fst (resumeState checkpoint w))
                         (snd (resumeState checkpoint w))) = Inr final \<longrightarrow>
           DAList.lookup (statuses final) k = DAList.lookup (statuses checkpoint) k \<and>
           DAList.lookup (outputs final) k = DAList.lookup (outputs checkpoint) k)"
      by (intro conjI)
  qed
  have cleared: "failed (fst (resumeState checkpoint w)) = None"
    by (simp add: resumeState_fields)
  have runs: "tid \<noteq> [] \<longrightarrow>
        run x workflow (Some tid) True (Some checkpoint) w =
          finishRun x workflow (Some (fst (resumeState checkpoint w)))
            (snd (resumeState checkpoint w))"
    by (simp add: run_def split: prod.splits)
  from reset kept cleared runs show ?thesis by (intro conjI)
qed

theorem resume_resets_witness:
  "DAList.lookup (statuses demoCheckpoint) ''B'' = Some FAILED \<and>
   DAList.lookup (statuses (fst (resumeState demoCheckpoint emptyWorld))) ''B'' = Some PENDING \<and>
   DAList.lookup (statuses demoCheckpoint) ''C'' = Some SKIPPED \<and>
   DAList.lookup (statuses (fst (resumeState demoCheckpoint emptyWorld))) ''C'' = Some PENDING \<and>
   DAList.lookup (statuses demoCheckpoint) ''A'' = Some SUCCESS \<and>
   DAList.lookup (statuses (fst (resumeState demoCheckpoint emptyWorld))) ''A'' = Some SUCCESS \<and>
   failed demoCheckpoint = Some (''B'', ''boom'') \<and>
   failed (fst (resumeState demoCheckpoint emptyWorld)) = None \<and>
   run demoPlatform okChain (Some ''run-1'') True (Some demoCheckpoint) emptyWorld =
     (Inr (),
      \<lparr>cache = [''exec echo '' \<mapsto> echoOut],
       events =
         [SetNodeStatus ''B'' PENDING, SetNodeStatus ''C'' PENDING,
          SetNodeStatus ''B'' RUNNING, CacheGet ''exec echo '', Spawn ''echo'' [],
          CachePut ''exec echo '' echoOut, SetNodeOutput ''B'' echoOut,
          SetNodeStatus ''B'' SUCCESS, SetNodeStatus ''C'' RUNNING, CacheGet ''exec echo '',
          SetNodeOutput ''C'' (echoOut\<lparr>cached := Some True\<rparr>),
          SetNodeStatus ''C'' CACHED, Complete ''success'']\<rparr>)"
proof -
  have s: "DAList.lookup (statuses demoCheckpoint) ''B'' = Some FAILED"
    "DAList.lookup (statuses demoCheckpoint) ''C'' = Some SKIPPED"
    "DAList.lookup (statuses demoCheckpoint) ''A'' = Some SUCCESS"
    "failed demoCheckpoint = Some (''B'', ''boom'')"
    by (simp_all add: demoCheckpoint_def stateOf_def createInitialState_def)
  have r: "run demoPlatform okChain (Some ''run-1'') True (Some demoCheckpoint) emptyWorld =
     (Inr (),
      \<lparr>cache = [''exec echo '' \<mapsto> echoOut],
       events =
         [SetNodeStatus ''B'' PENDING, SetNodeStatus ''C'' PENDING,
          SetNodeStatus ''B'' RUNNING, CacheGet ''exec echo '', Spawn ''echo'' [],
          CachePut ''exec echo '' echoOut, SetNodeOutput ''B'' echoOut,
          SetNodeStatus ''B'' SUCCESS, SetNodeStatus ''C'' RUNNING, CacheGet ''exec echo '',
          SetNodeOutput ''C'' (echoOut\<lparr>cached := Some True\<rparr>),
          SetNodeStatus ''C'' CACHED, Complete ''success'']\<rparr>)"
    by (simp add: run_def resumeState_def finishRun_def graphInvoke_def invoke.simps graph_eval
        demo_eval okChain_def demoCheckpoint_def skippedCount_def echoOut_def)
  note t = resume_resets[of demoCheckpoint emptyWorld demoPlatform okChain "''run-1''"]
  have pb: "DAList.lookup (statuses demoCheckpoint) ''B'' \<in> {Some FAILED, Some SKIPPED}"
    and pc: "DAList.lookup (statuses demoCheckpoint) ''C'' \<in> {Some FAILED, Some SKIPPED}"
    and pa: "DAList.lookup (statuses demoCheckpoint) ''A'' \<in> {Some SUCCESS, Some CACHED}"
    by (simp_all add: s)
  have b: "DAList.lookup (statuses (fst (resumeState demoCheckpoint emptyWorld))) ''B'' = Some PENDING"
    by (rule mp[OF spec[OF conjunct1[OF t], of "''B''"] pb])
  have c: "DAList.lookup (statuses (fst (resumeState demoCheckpoint emptyWorld))) ''C'' = Some PENDING"
    by (rule mp[OF spec[OF conjunct1[OF t], of "''C''"] pc])
  have a: "DAList.lookup (statuses (fst (resumeState demoCheckpoint emptyWorld))) ''A'' = Some SUCCESS"
    using conjunct1[OF mp[OF spec[OF conjunct1[OF conjunct2[OF t]], of "''A''"] pa]]
    by (simp add: s)
  have f: "failed (fst (resumeState demoCheckpoint emptyWorld)) = None"
    by (rule conjunct1[OF conjunct2[OF conjunct2[OF t]]])
  from s a b c f r show ?thesis by (intro conjI)
qed


section \<open>Deadlock detection\<close>

text \<open>
  Claim C3 fails on a state the code can be in. A first run of a chain A, B, C leaves the
  checkpoint A = SUCCESS, B = FAILED, C = SKIPPED. The workflow file is then edited (node
  A is deleted, C depends on a name that does not exist) and the run is resumed. After B
  has succeeded, the frontier is empty and C is still PENDING, but the conditional edge
  counts two processed entries (A and B) against two nodes (B and C) and returns END:
  no deadlock is reported and the run ends as a success.
\<close>

theorem stale_status_hides_deadlock:
  "nextIds (tick editedChain (stateOf [(''A'', SUCCESS), (''B'', SUCCESS), (''C'', PENDING)])
              emptyWorld) = [] \<and>
   DAList.lookup (statuses (tick editedChain
       (stateOf [(''A'', SUCCESS), (''B'', SUCCESS), (''C'', PENDING)]) emptyWorld)) ''C''
     = Some PENDING \<and>
   routerEdge editedChain
     (tick editedChain (stateOf [(''A'', SUCCESS), (''B'', SUCCESS), (''C'', PENDING)])
        emptyWorld) = Inr END \<and>
   run demoPlatform editedChain (Some ''run-1'') True (Some demoCheckpoint) emptyWorld =
     (Inr (),
      \<lparr>cache = [''exec echo '' \<mapsto> echoOut],
       events =
         [SetNodeStatus ''B'' PENDING, SetNodeStatus ''C'' PENDING,
          SetNodeStatus ''B'' RUNNING, CacheGet ''exec echo '', Spawn ''echo'' [],
          CachePut ''exec echo '' echoOut, SetNodeOutput ''B'' echoOut,
          SetNodeStatus ''B'' SUCCESS, Complete ''success'']\<rparr>)"
  by (simp add: run_def resumeState_def finishRun_def graphInvoke_def invoke.simps graph_eval
      demo_eval editedChain_def demoCheckpoint_def skippedCount_def echoOut_def tick_def)



section \<open>Propagation of a failure\<close>

text \<open>
  Claim C4 fails on a chain of three nodes A, B, C whose first command exits with code 1.
  The tick after the failure marks B (a direct dependent) SKIPPED; C depends on B, whose
  status was still PENDING when the tick began, so C is not marked; the frontier is empty
  and the conditional edge throws the deadlock error naming C. The run ends there: C is
  never set to SKIPPED.
\<close>

theorem chain_failure_ends_in_deadlock:
  "run demoPlatform chainWorkflow None True None emptyWorld =
     (Inl (Deadlock [''C'']),
      \<lparr>cache = Map.empty,
       events = [SetNodeStatus ''A'' PENDING, SetNodeStatus ''B'' PENDING,
                 SetNodeStatus ''C'' PENDING, SetNodeStatus ''A'' RUNNING,
                 CacheGet ''exec false '', Spawn ''false'' [],
                 SetNodeError ''A'' (message (ExecFailed 1 ''false'' [] ''boom'')),
                 SetNodeStatus ''A'' FAILED, SetNodeStatus ''B'' SKIPPED,
                 Complete ''failed'']\<rparr>)"
  by (simp add: run_def finishRun_def graphInvoke_def invoke.simps graph_eval demo_eval
      chainWorkflow_def)


section \<open>The thread id of a run directory\<close>

text \<open>
  Claim C9. The thread id of a run directory is generated when the run store of the
  directory is first created (one value is taken from the random source), and nothing
  that happens to the directory afterwards changes it or generates another: after any
  sequence of store calls and resume attempts the store object and \<open>run.json\<close> hold
  the id of the creation and the random source is as the creation left it. Loading the
  store for resume from a \<open>run.json\<close> with a thread id leaves the system unchanged and
  gives a store with that id.
\<close>

theorem thread_id_stable:
  "getThreadId (fst (createRun dir name s)) = fst (generateThreadId s)
   \<and> randoms (snd (createRun dir name s)) = tl (randoms s)
   \<and> getThreadId (fst (fold applyOp ops (createRun dir name s)))
       = getThreadId (fst (createRun dir name s))
   \<and> map_option threadId (load dir (snd (fold applyOp ops (createRun dir name s))))
       = Some (getThreadId (fst (createRun dir name s)))
   \<and> randoms (snd (fold applyOp ops (createRun dir name s)))
       = randoms (snd (createRun dir name s))
   \<and> (\<forall>m. load dir s' = Some m \<and> threadId m \<noteq> [] \<longrightarrow>
         loadForResume dir s' = (Some \<lparr>runDir = dir, metadata = m\<rparr>, s') \<and>
         getThreadId \<lparr>runDir = dir, metadata = m\<rparr> = threadId m)"
proof -
  let ?t = "fst (generateThreadId s)"
  have c: "holdsId dir ?t (tl (randoms s)) (createRun dir name s)"
    by (rule createRun_holds)
  have f: "holdsId dir ?t (tl (randoms s)) (fold applyOp ops (createRun dir name s))"
    by (rule fold_applyOp_holds[OF c generate_nonempty])
  from c f show ?thesis
    by (auto simp: holdsId_def loadForResume_keeps getThreadId_def split: prod.splits)
qed


theorem thread_id_stable_witness:
  "getThreadId (fst (createRun ''r1'' ''chain'' demoSys)) = ''run-7-abc123xyz'' \<and>
   getThreadId (fst (fold applyOp demoOps (createRun ''r1'' ''chain'' demoSys)))
     = ''run-7-abc123xyz'' \<and>
   map_option threadId
     (load ''r1'' (snd (fold applyOp demoOps (createRun ''r1'' ''chain'' demoSys))))
     = Some ''run-7-abc123xyz'' \<and>
   randoms (snd (fold applyOp demoOps (createRun ''r1'' ''chain'' demoSys))) = [''zzz''] \<and>
   load ''r1'' (snd (createRun ''r1'' ''chain'' demoSys))
     = Some (metadata (fst (createRun ''r1'' ''chain'' demoSys))) \<and>
   threadId (metadata (fst (createRun ''r1'' ''chain'' demoSys))) \<noteq> [] \<and>
   loadForResume ''r1'' (snd (createRun ''r1'' ''chain'' demoSys)) =
     (Some \<lparr>runDir = ''r1'', metadata = metadata (fst (createRun ''r1'' ''chain'' demoSys))\<rparr>,
      snd (createRun ''r1'' ''chain'' demoSys))"
proof -
  note t = thread_id_stable[of "''r1''" "''chain''" demoSys demoOps
      "snd (createRun ''r1'' ''chain'' demoSys)"]
  have g: "getThreadId (fst (createRun ''r1'' ''chain'' demoSys)) = ''run-7-abc123xyz''"
    by (simp add: demo_createRun getThreadId_def)
  have r: "randoms (snd (createRun ''r1'' ''chain'' demoSys)) = [''zzz'']"
    by (simp add: demo_createRun)
  have l: "load ''r1'' (snd (createRun ''r1'' ''chain'' demoSys))
     = Some (metadata (fst (createRun ''r1'' ''chain'' demoSys)))"
    by (simp add: demo_createRun load_def)
  have n: "threadId (metadata (fst (createRun ''r1'' ''chain'' demoSys))) \<noteq> []"
    by (simp add: demo_createRun)
  have a: "getThreadId (fst (fold applyOp demoOps (createRun ''r1'' ''chain'' demoSys)))
     = ''run-7-abc123xyz''"
    using conjunct1[OF conjunct2[OF conjunct2[OF t]]] g by simp
  have b: "map_option threadId
     (load ''r1'' (snd (fold applyOp demoOps (createRun ''r1'' ''chain'' demoSys))))
     = Some ''run-7-abc123xyz''"
    using conjunct1[OF conjunct2[OF conjunct2[OF conjunct2[OF t]]]] g by simp
  have c: "randoms (snd (fold applyOp demoOps (createRun ''r1'' ''chain'' demoSys))) = [''zzz'']"
    using conjunct1[OF conjunct2[OF conjunct2[OF conjunct2[OF conjunct2[OF t]]]]] r by simp
  have d: "loadForResume ''r1'' (snd (createRun ''r1'' ''chain'' demoSys)) =
     (Some \<lparr>runDir = ''r1'', metadata = metadata (fst (createRun ''r1'' ''chain'' demoSys))\<rparr>,
      snd (createRun ''r1'' ''chain'' demoSys))"
    using conjunct2[OF conjunct2[OF conjunct2[OF conjunct2[OF conjunct2[OF t]]]]] l n by blast
  from g a b c l n d show ?thesis by (intro conjI)
qed


section \<open>Fan-out nodes\<close>



end
